theory Spec2Isabelle
  imports Complex_Main "HOL-Library.Sublist"
begin

section \<open>Data model of penn/core.py\<close>

text \<open>
  Floating-point values (samples, seconds, frequencies, pitch, periodicity) are carried as
  \<open>real\<close>; no arithmetic on them is modelled, they are only moved, padded with zero and
  compared.  A logit is a float or negative infinity.  Tensors are lists: an audio buffer of
  shape (1, samples) is the list of its samples, a batch of frames of shape
  (frames, 1, window) is a list of windows, and a logits tensor of shape (frames, bins, 1)
  is a list of rows, one row of bin scores per frame.
\<close>

datatype error = ValueError string | ZeroDivisionError | RuntimeError string

type_synonym audio = "real list"
type_synonym frames = "real list list"

datatype logit = NegInf | Fin real

type_synonym logits = "logit list list"

text \<open>The value of \<open>postprocess\<close>: \<open>bins.T, pitch.T, periodicity.T\<close>, one entry per frame.\<close>

type_synonym decoded = "nat list \<times> real list \<times> real list"

datatype quantize = Floor | Ceil

record device =
  dev_type :: string
  dev_index :: "nat option"

text \<open>
  A \<open>pathlib.Path\<close>: its anchor (\<open>''/''\<close> or empty) and its parts below the anchor.
\<close>

datatype path = Path (anchor: string) (parts: "string list")

text \<open>
  What core.py takes from the rest of the package and from torch, none of which is under
  src/: the configuration constants, the converters of \<open>penn.convert\<close>, the resampling
  filter of torchaudio, \<open>penn.load.audio\<close>, \<open>penn.checkpoint.load\<close> applied to a fresh
  \<open>penn.Model()\<close>, \<open>Module.to\<close>, the forward pass of the network, and the decoders of
  \<open>penn.decode\<close> and \<open>penn.periodicity\<close>.  They are parameters of every definition below.
\<close>

record 'm penn =
  SAMPLE_RATE :: nat
  WINDOW_SIZE :: nat
  DECODER :: string
  PERIODICITY :: string
  seconds_to_samples :: "real \<Rightarrow> nat"
  frequency_to_bins :: "real \<Rightarrow> quantize \<Rightarrow> nat"
  resampler :: "nat \<Rightarrow> nat \<Rightarrow> audio \<Rightarrow> audio"
  load_audio :: "path \<Rightarrow> audio"
  checkpoint_load :: "path \<Rightarrow> 'm"
  model_to :: "'m \<Rightarrow> device \<Rightarrow> 'm"
  forward :: "'m \<Rightarrow> frames \<Rightarrow> logits"
  decode_argmax :: "logits \<Rightarrow> nat list \<times> real list"
  decode_average :: "logits \<Rightarrow> nat list \<times> real list"
  decode_viterbi :: "logits \<Rightarrow> nat list \<times> real list"
  decode_weighted :: "logits \<Rightarrow> nat list \<times> real list"
  periodicity_entropy :: "logits \<Rightarrow> real list"
  periodicity_max :: "logits \<Rightarrow> real list"
  periodicity_sum :: "logits \<Rightarrow> real list"

section \<open>Python and torch primitives used by core.py\<close>

text \<open>
  \<open>range(0, stop, step)\<close> for \<open>stop \<ge> 0\<close>: a zero step raises ValueError, a negative
  step gives the empty range, a positive step gives \<open>0, step, 2 * step, ...\<close> below stop.
\<close>

definition py_range :: "nat \<Rightarrow> int \<Rightarrow> error + nat list" where
  "py_range stop step =
     (if step = 0 then Inl (ValueError ''range() arg 3 must not be zero'')
      else if step < 0 then Inr []
      else Inr (map (\<lambda>k. k * nat step) [0 ..< (stop + nat step - 1) div nat step]))"

text \<open>
  \<open>torch.nn.functional.pad(audio, (p, p))\<close> on the last dimension: zeros on both sides;
  a negative width crops instead, and raises when more would be cropped than there is.
\<close>

definition pad :: "audio \<Rightarrow> int \<Rightarrow> error + audio" where
  "pad xs p =
     (if 0 \<le> p then Inr (replicate (nat p) 0 @ xs @ replicate (nat p) 0)
      else if length xs < 2 * nat (- p) then Inl (RuntimeError ''negative output size'')
      else Inr (take (length xs - 2 * nat (- p)) (drop (nat (- p)) xs)))"

text \<open>The slice \<open>audio[..., start:end]\<close> with \<open>0 \<le> start\<close>: clipped to the buffer.\<close>

definition slice :: "'a list \<Rightarrow> nat \<Rightarrow> nat \<Rightarrow> 'a list" where
  "slice xs start end = take (end - start) (drop start xs)"

text \<open>
  \<open>torch.nn.functional.unfold(x, kernel_size=(1, w), stride=(1, h)).permute(2, 0, 1)\<close> on
  one channel: the windows of length w at offsets \<open>0, h, 2 * h, ...\<close> that fit; torch raises
  when not even one window fits.
\<close>

definition unfold :: "audio \<Rightarrow> nat \<Rightarrow> nat \<Rightarrow> error + frames" where
  "unfold xs w h =
     (if w = 0 \<or> h = 0 \<or> length xs < w then Inl (RuntimeError ''sliding blocks must be positive'')
      else Inr (map (\<lambda>k. take w (drop (k * h) xs)) [0 ..< (length xs - w) div h + 1]))"

text \<open>
  A generator that runs a loop body over the items and yields its values: what a consumer
  that iterates it to the end sees is the list of the values yielded, and the exception
  that ended the iteration, if any.
\<close>

type_synonym 'b generated = "'b list \<times> error option"

fun generate :: "('a \<Rightarrow> error + 'b) \<Rightarrow> 'a list \<Rightarrow> 'b generated" where
  "generate f [] = ([], None)"
| "generate f (x # xs) =
     (case f x of Inl e \<Rightarrow> ([], Some e)
      | Inr y \<Rightarrow> (case generate f xs of (ys, r) \<Rightarrow> (y # ys, r)))"

section \<open>Framer: resample and preprocess\<close>

definition resample :: "'m penn \<Rightarrow> audio \<Rightarrow> nat \<Rightarrow> audio" where
  "resample env audio sample_rate =
     (if sample_rate = SAMPLE_RATE env then audio
      else resampler env sample_rate (SAMPLE_RATE env) audio)"

text \<open>\<open>int((WINDOW_SIZE - hopsize) / 2)\<close>: true division, then truncation towards zero.\<close>

definition padding_of :: "nat \<Rightarrow> nat \<Rightarrow> int" where
  "padding_of window hop =
     (if hop \<le> window then int ((window - hop) div 2) else - int ((hop - window) div 2))"

text \<open>The body of the batch loop of \<open>preprocess\<close> at index i (\<open>batch_size\<close> is positive there).\<close>

definition batch_at :: "'m penn \<Rightarrow> audio \<Rightarrow> nat \<Rightarrow> nat \<Rightarrow> nat \<Rightarrow> nat \<Rightarrow> error + (frames \<times> nat)" where
  "batch_at env padded hop total_frames batch_size i =
     (let batch = min (total_frames - i) batch_size;
          start = i * hop;
          end = start + (batch - 1) * hop + WINDOW_SIZE env
      in case unfold (slice padded start end) (WINDOW_SIZE env) hop of
           Inl e \<Rightarrow> Inl e
         | Inr frames \<Rightarrow> Inr (frames, batch))"

text \<open>
  \<open>preprocess\<close> is a generator: nothing of its body runs before the first item is asked
  for, so an exception of the code before the loop is seen by the consumer as an iteration
  that yields nothing and raises.  The hop in samples is a natural number; a hop of zero
  samples makes the division raise; \<open>int(samples / hop)\<close> is the whole quotient (the
  division of floats is exact for buffers shorter than \<open>2 ^ 53\<close> samples).
  \<open>batch_size = None\<close> is the default.
\<close>

definition preprocess ::
  "'m penn \<Rightarrow> audio \<Rightarrow> nat \<Rightarrow> real \<Rightarrow> int option \<Rightarrow> (frames \<times> nat) generated" where
  "preprocess env audio sample_rate hopsize batch_size =
     (let hop = seconds_to_samples env hopsize;
          audio = (if sample_rate \<noteq> SAMPLE_RATE env then resample env audio sample_rate else audio)
      in if hop = 0 then ([], Some ZeroDivisionError)
         else
           let total_frames = length audio div hop
           in case pad audio (padding_of (WINDOW_SIZE env) hop) of
                Inl e \<Rightarrow> ([], Some e)
              | Inr padded \<Rightarrow>
                  (let batch_size = (case batch_size of None \<Rightarrow> int total_frames | Some b \<Rightarrow> b)
                   in case py_range total_frames batch_size of
                        Inl e \<Rightarrow> ([], Some e)
                      | Inr indices \<Rightarrow>
                          generate (batch_at env padded hop total_frames (nat batch_size)) indices))"

section \<open>Inference runner: infer\<close>

text \<open>
  The attributes that \<open>infer\<close> keeps on itself between calls (absent before the first
  call), and the state of the process that the pipeline reads and writes: these attributes,
  the checkpoints read from storage so far (oldest first; a record of the calls of
  \<open>penn.checkpoint.load\<close>), the audio files read so far (a record of the calls of
  \<open>penn.load.audio\<close>), and the tensors saved to storage, by file name.
\<close>

record 'm infer_attrs =
  model :: 'm
  checkpoint :: path
  device_type :: string

record 'm world =
  attrs :: "'m infer_attrs option"
  loaded :: "path list"
  opened :: "path list"
  saved :: "string \<rightharpoonup> real list"

text \<open>The block "Load and cache model" of \<open>infer\<close>, for frames on device \<open>dev\<close>.\<close>

definition needs_load :: "'m world \<Rightarrow> device \<Rightarrow> path \<Rightarrow> bool" where
  "needs_load w dev ckpt =
     (case attrs w of
        None \<Rightarrow> True
      | Some a \<Rightarrow> checkpoint a \<noteq> ckpt \<or> device_type a \<noteq> dev_type dev)"

definition load_and_cache :: "'m penn \<Rightarrow> 'm world \<Rightarrow> device \<Rightarrow> path \<Rightarrow> 'm world" where
  "load_and_cache env w dev ckpt =
     (if needs_load w dev ckpt
      then w\<lparr>attrs := Some \<lparr>model = model_to env (checkpoint_load env ckpt) dev,
                              checkpoint = ckpt,
                              device_type = dev_type dev\<rparr>,
             loaded := loaded w @ [ckpt]\<rparr>
      else w)"

text \<open>
  \<open>infer(frames, checkpoint)\<close> with the frames on device \<open>dev\<close>: the state after the
  call and the logits.  After \<open>load_and_cache\<close> the attributes are always present.
\<close>

definition infer :: "'m penn \<Rightarrow> 'm world \<Rightarrow> device \<Rightarrow> frames \<Rightarrow> path \<Rightarrow> 'm world \<times> logits" where
  "infer env w dev frames ckpt =
     (let w' = load_and_cache env w dev ckpt
      in case attrs w' of
           Some a \<Rightarrow> (w', forward env (model a) frames)
         | None \<Rightarrow> (w', []))"

section \<open>Postprocessor: postprocess\<close>

text \<open>
  The two slice assignments \<open>logits[:, :minidx] = -inf\<close> and
  \<open>logits[:, maxidx:] = -inf\<close>, on one row of bins; slices are clipped to the row.
\<close>

definition fill_below :: "nat \<Rightarrow> logit list \<Rightarrow> logit list" where
  "fill_below minidx row = replicate (min minidx (length row)) NegInf @ drop minidx row"

definition fill_from :: "nat \<Rightarrow> logit list \<Rightarrow> logit list" where
  "fill_from maxidx row = take maxidx row @ replicate (length row - maxidx) NegInf"

text \<open>The chains of comparisons on \<open>penn.DECODER\<close> and on \<open>penn.PERIODICITY\<close>.\<close>

definition decode_pitch :: "'m penn \<Rightarrow> logits \<Rightarrow> error + (nat list \<times> real list)" where
  "decode_pitch env logits =
     (if DECODER env = ''argmax'' then Inr (decode_argmax env logits)
      else if DECODER env = ''average'' then Inr (decode_average env logits)
      else if prefix ''viterbi'' (DECODER env) then Inr (decode_viterbi env logits)
      else if DECODER env = ''weighted'' then Inr (decode_weighted env logits)
      else Inl (ValueError (''Decoder method '' @ DECODER env @ '' is not defined'')))"

definition decode_periodicity :: "'m penn \<Rightarrow> logits \<Rightarrow> error + real list" where
  "decode_periodicity env logits =
     (if PERIODICITY env = ''entropy'' then Inr (periodicity_entropy env logits)
      else if PERIODICITY env = ''max'' then Inr (periodicity_max env logits)
      else if PERIODICITY env = ''sum'' then Inr (periodicity_sum env logits)
      else Inl (ValueError (''Periodicity method '' @ PERIODICITY env @ '' is not defined'')))"

text \<open>
  \<open>postprocess(logits, fmin, fmax)\<close>: the caller's logits tensor as the call leaves it,
  and the value returned or the exception raised.
\<close>

definition postprocess :: "'m penn \<Rightarrow> logits \<Rightarrow> real \<Rightarrow> real \<Rightarrow> logits \<times> (error + decoded)" where
  "postprocess env logits fmin fmax =
     (let minidx = frequency_to_bins env fmin Floor;
          maxidx = frequency_to_bins env fmax Ceil;
          logits = map (fill_below minidx) logits;
          logits = map (fill_from maxidx) logits
      in (logits,
          case decode_pitch env logits of
            Inl e \<Rightarrow> Inl e
          | Inr (bins, pitch) \<Rightarrow>
              (case decode_periodicity env logits of
                 Inl e \<Rightarrow> Inl e
               | Inr periodicity \<Rightarrow> Inr (bins, pitch, periodicity))))"

section \<open>Pipeline orchestrator\<close>

text \<open>\<open>'cpu' if gpu is None else f'cuda:{gpu}'\<close>, as the device the frames are copied to.\<close>

definition device_of :: "nat option \<Rightarrow> device" where
  "device_of gpu =
     (case gpu of
        None \<Rightarrow> \<lparr>dev_type = ''cpu'', dev_index = None\<rparr>
      | Some g \<Rightarrow> \<lparr>dev_type = ''cuda'', dev_index = Some g\<rparr>)"

text \<open>
  The loop of \<open>from_audio\<close> over the batches that the generator yields: the state after
  it, and the lists \<open>pitch\<close> and \<open>periodicity\<close>, or the exception of \<open>postprocess\<close>.
\<close>

fun from_audio_loop ::
  "'m penn \<Rightarrow> 'm world \<Rightarrow> device \<Rightarrow> path \<Rightarrow> real \<Rightarrow> real \<Rightarrow> (frames \<times> nat) list
   \<Rightarrow> 'm world \<times> (error + (real list list \<times> real list list))" where
  "from_audio_loop env w dev ckpt fmin fmax [] = (w, Inr ([], []))"
| "from_audio_loop env w dev ckpt fmin fmax ((frames, _) # rest) =
     (case infer env w dev frames ckpt of
        (w1, logits) \<Rightarrow>
          (case snd (postprocess env logits fmin fmax) of
             Inl e \<Rightarrow> (w1, Inl e)
           | Inr (bins, pitch, periodicity) \<Rightarrow>
               (case from_audio_loop env w1 dev ckpt fmin fmax rest of
                  (w2, Inl e) \<Rightarrow> (w2, Inl e)
                | (w2, Inr (ps, qs)) \<Rightarrow> (w2, Inr (pitch # ps, periodicity # qs)))))"

text \<open>\<open>torch.cat(tensors, 1)\<close> of tensors of shape (1, n): raises on the empty list.\<close>

definition torch_cat :: "real list list \<Rightarrow> error + real list" where
  "torch_cat ts =
     (if ts = [] then Inl (RuntimeError ''torch.cat(): expected a non-empty list of Tensors'')
      else Inr (concat ts))"

definition from_audio ::
  "'m penn \<Rightarrow> 'm world \<Rightarrow> audio \<Rightarrow> nat \<Rightarrow> real \<Rightarrow> real \<Rightarrow> real \<Rightarrow> path \<Rightarrow> int option \<Rightarrow> nat option
   \<Rightarrow> 'm world \<times> (error + (real list \<times> real list))" where
  "from_audio env w audio sample_rate hopsize fmin fmax ckpt batch_size gpu =
     (case preprocess env audio sample_rate hopsize batch_size of
        (batches, raised) \<Rightarrow>
          (case from_audio_loop env w (device_of gpu) ckpt fmin fmax batches of
             (w', Inl e) \<Rightarrow> (w', Inl e)
           | (w', Inr (ps, qs)) \<Rightarrow>
               (case raised of
                  Some e \<Rightarrow> (w', Inl e)
                | None \<Rightarrow>
                    (case torch_cat ps of
                       Inl e \<Rightarrow> (w', Inl e)
                     | Inr pitch \<Rightarrow>
                         (case torch_cat qs of
                            Inl e \<Rightarrow> (w', Inl e)
                          | Inr periodicity \<Rightarrow> (w', Inr (pitch, periodicity)))))))"

definition from_file ::
  "'m penn \<Rightarrow> 'm world \<Rightarrow> path \<Rightarrow> real \<Rightarrow> real \<Rightarrow> real \<Rightarrow> path \<Rightarrow> int option \<Rightarrow> nat option
   \<Rightarrow> 'm world \<times> (error + (real list \<times> real list))" where
  "from_file env w file hopsize fmin fmax ckpt batch_size gpu =
     (let audio = load_audio env file;
          w = w\<lparr>opened := opened w @ [file]\<rparr>
      in from_audio env w audio (SAMPLE_RATE env) hopsize fmin fmax ckpt batch_size gpu)"

subsection \<open>pathlib\<close>

text \<open>\<open>str.rfind\<close> of one character: the last index where it occurs.\<close>

fun rfind :: "char \<Rightarrow> string \<Rightarrow> nat option" where
  "rfind c [] = None"
| "rfind c (x # xs) =
     (case rfind c xs of
        Some i \<Rightarrow> Some (Suc i)
      | None \<Rightarrow> if x = c then Some 0 else None)"

definition path_name :: "path \<Rightarrow> string" where
  "path_name p = (if parts p = [] then [] else last (parts p))"

text \<open>\<open>PurePath.stem\<close>: the name up to its last dot, unless that dot is first or last.\<close>

definition path_stem :: "path \<Rightarrow> string" where
  "path_stem p =
     (let name = path_name p
      in case rfind CHR ''.'' name of
           None \<Rightarrow> name
         | Some i \<Rightarrow> if 0 < i \<and> Suc i < length name then take i name else name)"

definition path_parent :: "path \<Rightarrow> path" where
  "path_parent p = Path (anchor p) (butlast (parts p))"

text \<open>\<open>p / s\<close> for a string without separator; joining the empty string changes nothing.\<close>

definition path_join :: "path \<Rightarrow> string \<Rightarrow> path" where
  "path_join p s = (if s = [] then p else Path (anchor p) (parts p @ [s]))"

fun join_parts :: "string list \<Rightarrow> string" where
  "join_parts [] = []"
| "join_parts [x] = x"
| "join_parts (x # y # ys) = x @ ''/'' @ join_parts (y # ys)"

definition path_str :: "path \<Rightarrow> string" where
  "path_str p =
     (if anchor p = [] \<and> parts p = [] then ''.'' else anchor p @ join_parts (parts p))"

subsection \<open>Saving\<close>

text \<open>\<open>torch.save(tensor, name)\<close>: the file of that name now holds the tensor.\<close>

definition torch_save :: "'m world \<Rightarrow> string \<Rightarrow> real list \<Rightarrow> 'm world" where
  "torch_save w name tensor = w\<lparr>saved := (saved w)(name \<mapsto> tensor)\<rparr>"

definition from_file_to_file ::
  "'m penn \<Rightarrow> 'm world \<Rightarrow> path \<Rightarrow> path option \<Rightarrow> real \<Rightarrow> real \<Rightarrow> real \<Rightarrow> path \<Rightarrow> int option
   \<Rightarrow> nat option \<Rightarrow> 'm world \<times> error option" where
  "from_file_to_file env w file output_prefix hopsize fmin fmax ckpt batch_size gpu =
     (case from_file env w file hopsize fmin fmax ckpt batch_size gpu of
        (w1, Inl e) \<Rightarrow> (w1, Some e)
      | (w1, Inr (pitch, periodicity)) \<Rightarrow>
          (let output_prefix =
                 (case output_prefix of
                    None \<Rightarrow> path_join (path_parent file) (path_stem file)
                  | Some p \<Rightarrow> p);
               w2 = torch_save w1 (path_str output_prefix @ ''-pitch.pt'') pitch;
               w3 = torch_save w2 (path_str output_prefix @ ''-periodicity.pt'') periodicity
           in (w3, None)))"



section \<open>Sequences of calls of infer\<close>

text \<open>
  A sequence of calls of \<open>infer\<close>, each with the device of its frames, the frames and the
  checkpoint: for every call, whether it read a checkpoint from storage, and the model
  handle that \<open>infer\<close> holds after it.
\<close>

fun infer_calls :: "'m penn \<Rightarrow> 'm world \<Rightarrow> (device \<times> frames \<times> path) list \<Rightarrow> (bool \<times> 'm option) list" where
  "infer_calls env w [] = []"
| "infer_calls env w ((dev, frames, ckpt) # calls) =
     (let w' = fst (infer env w dev frames ckpt)
      in (loaded w' \<noteq> loaded w, map_option model (attrs w')) # infer_calls env w' calls)"

text \<open>
  The caching rule in the words of the specification, to compare \<open>infer_calls\<close> with: the
  handle is reused when checkpoint path and device type both match those of the previous
  call; on the first call, or when either differs, the weights are loaded from the
  checkpoint and the model is moved to the device of the frames.  \<open>prev\<close> is the
  checkpoint and device type of the previous call and the handle it left.
\<close>

fun spec_handles ::
  "'m penn \<Rightarrow> (path \<times> string \<times> 'm) option \<Rightarrow> (device \<times> frames \<times> path) list \<Rightarrow> (bool \<times> 'm option) list" where
  "spec_handles env prev [] = []"
| "spec_handles env prev ((dev, frames, ckpt) # calls) =
     (let reuse = (case prev of None \<Rightarrow> False | Some (c, t, m) \<Rightarrow> c = ckpt \<and> t = dev_type dev);
          handle = (case prev of
                      None \<Rightarrow> model_to env (checkpoint_load env ckpt) dev
                    | Some (c, t, m) \<Rightarrow>
                        if reuse then m else model_to env (checkpoint_load env ckpt) dev)
      in (\<not> reuse, Some handle) # spec_handles env (Some (ckpt, dev_type dev, handle)) calls)"

section \<open>Decoders of the specification\<close>

text \<open>The order of logits: negative infinity is below every float.\<close>

fun logit_less :: "logit \<Rightarrow> logit \<Rightarrow> bool" where
  "logit_less NegInf NegInf = False"
| "logit_less NegInf (Fin y) = True"
| "logit_less (Fin x) NegInf = False"
| "logit_less (Fin x) (Fin y) = (x < y)"

fun logit_plus :: "logit \<Rightarrow> logit \<Rightarrow> logit" where
  "logit_plus (Fin x) (Fin y) = Fin (x + y)"
| "logit_plus _ _ = NegInf"

text \<open>The first index of the largest value of a row, and that value.\<close>

fun best :: "logit list \<Rightarrow> nat \<times> logit" where
  "best [] = (0, NegInf)"
| "best (x # xs) =
     (case best xs of (i, v) \<Rightarrow> if xs \<noteq> [] \<and> logit_less x v then (Suc i, v) else (0, x))"

text \<open>
  Modelled from the spec: \<open>penn.decode.argmax\<close> is not under src/.  "argmax: pick the
  highest-scoring bin per frame; pitch = bin to frequency mapping of that bin."  Among
  equal scores the first bin is taken, as \<open>torch.argmax\<close> does; the mapping from bins to
  frequencies is a parameter.
\<close>

definition spec_argmax :: "(nat \<Rightarrow> real) \<Rightarrow> logits \<Rightarrow> nat list \<times> real list" where
  "spec_argmax bins_to_frequency logits =
     (let bins = map (\<lambda>row. fst (best row)) logits
      in (bins, map bins_to_frequency bins))"

text \<open>
  Modelled from the spec: \<open>penn.decode.viterbi\<close> is not under src/.  "viterbi: globally
  optimal bin sequence across time [...] over a transition-cost trellis that penalizes
  large frame-to-frame bin jumps."  The score of a bin sequence is the sum of its logits
  minus the cost of each transition; the optimum is taken over all bin sequences, the first
  one among equals.  The transition cost and the mapping from bins to frequencies are
  parameters.
\<close>

fun path_score :: "(nat \<Rightarrow> nat \<Rightarrow> real) \<Rightarrow> logits \<Rightarrow> nat list \<Rightarrow> logit" where
  "path_score cost (row # rows) (b # bs) =
     logit_plus (row ! b)
       (logit_plus (Fin (- (case bs of [] \<Rightarrow> 0 | b' # _ \<Rightarrow> cost b b'))) (path_score cost rows bs))"
| "path_score cost _ _ = Fin 0"

definition spec_viterbi :: "(nat \<Rightarrow> nat \<Rightarrow> real) \<Rightarrow> (nat \<Rightarrow> real) \<Rightarrow> logits \<Rightarrow> nat list \<times> real list" where
  "spec_viterbi cost bins_to_frequency logits =
     (let candidates = product_lists (map (\<lambda>row. [0 ..< length row]) logits)
      in if candidates = [] then ([], [])
         else
           let bins = candidates ! fst (best (map (path_score cost logits) candidates))
           in (bins, map bins_to_frequency bins))"

text \<open>
  A decoder or a network works frame by frame when its value on a batch is the
  concatenation of its values on the parts of the batch.
\<close>

definition framewise :: "(logits \<Rightarrow> 'b list) \<Rightarrow> bool" where
  "framewise f \<longleftrightarrow> (\<forall>xs ys. f (xs @ ys) = f xs @ f ys)"

definition framewise_decoder :: "(logits \<Rightarrow> nat list \<times> real list) \<Rightarrow> bool" where
  "framewise_decoder d \<longleftrightarrow> framewise (\<lambda>l. fst (d l)) \<and> framewise (\<lambda>l. snd (d l))"

definition framewise_forward :: "'m penn \<Rightarrow> bool" where
  "framewise_forward env \<longleftrightarrow> (\<forall>m xs ys. forward env m (xs @ ys) = forward env m xs @ forward env m ys)"

text \<open>
  A decoder selects finite scores when it returns one bin for every frame and, for a frame
  that holds a score other than negative infinity, a bin of that frame with such a score.
\<close>

definition selects_finite :: "(logits \<Rightarrow> error + (nat list \<times> real list)) \<Rightarrow> bool" where
  "selects_finite decode \<longleftrightarrow>
     (\<forall>logits bins pitch.
        decode logits = Inr (bins, pitch) \<longrightarrow>
        length bins = length logits \<and>
        (\<forall>t < length logits.
           (\<exists>b < length (logits ! t). logits ! t ! b \<noteq> NegInf) \<longrightarrow>
           bins ! t < length (logits ! t) \<and> logits ! t ! (bins ! t) \<noteq> NegInf))"

section \<open>A small configuration\<close>

text \<open>
  A configuration on which the theorems below are exercised: a model at 8 samples a
  second, windows of 4 samples, a hop of 2 samples whatever the hop in seconds, bins one
  hertz wide, a resampler that only shortens the buffer to the length the new rate gives,
  every file holding the same eight samples, a model that is the checkpoint it came from
  and the type of the device it is on, a network whose four logits of a frame are the four
  samples of the frame, the argmax decoder of the specification (also in the place of the
  average and weighted decoders), its viterbi decoder with a cost of 5 a bin, and a
  periodicity of one for every frame.
\<close>

definition tiny :: "(path \<times> string) penn" where
  "tiny = \<lparr>
     SAMPLE_RATE = 8,
     WINDOW_SIZE = 4,
     DECODER = ''argmax'',
     PERIODICITY = ''max'',
     seconds_to_samples = (\<lambda>s. 2),
     frequency_to_bins = (\<lambda>f q. case q of Floor \<Rightarrow> nat \<lfloor>f\<rfloor> | Ceil \<Rightarrow> nat \<lceil>f\<rceil>),
     resampler = (\<lambda>rate target audio. take (length audio * target div rate) audio),
     load_audio = (\<lambda>file. [1, 5, 2, 0, 3, 1, 4, 2]),
     checkpoint_load = (\<lambda>ckpt. (ckpt, ''cpu'')),
     model_to = (\<lambda>m dev. (fst m, dev_type dev)),
     forward = (\<lambda>m frames. map (map Fin) frames),
     decode_argmax = spec_argmax real,
     decode_average = spec_argmax real,
     decode_viterbi = spec_viterbi (\<lambda>a b. 5 * \<bar>real a - real b\<bar>) real,
     decode_weighted = spec_argmax real,
     periodicity_entropy = map (\<lambda>row. 1),
     periodicity_max = map (\<lambda>row. 1),
     periodicity_sum = map (\<lambda>row. 1)\<rparr>"

text \<open>The state of a process that has not called \<open>infer\<close> yet, with nothing saved.\<close>

definition fresh :: "'m world" where
  "fresh = \<lparr>attrs = None, loaded = [], opened = [], saved = Map.empty\<rparr>"

section \<open>Properties of the framer\<close>

lemma sum_batches:
  "sum_list (map (\<lambda>k. min (T - k * B) B) [0 ..< n]) = min T (n * B)"
  by (induction n) (auto simp: min_def)

lemma range_covers:
  assumes "0 < (B::nat)"
  shows "T \<le> ((T + B - 1) div B) * B"
proof -
  have "T + B - 1 < ((T + B - 1) div B) * B + B"
    using assms by (metis add.commute dividend_less_times_div mult.commute)
  then show ?thesis using assms by linarith
qed

lemma range_last:
  assumes "0 < (B::nat)" "k < (T + B - 1) div B"
  shows "k * B < T"
proof -
  let ?n = "(T + B - 1) div B"
  have a: "?n * B \<le> T + B - 1" by simp
  have "Suc k \<le> ?n" using assms(2) by simp
  then have "Suc k * B \<le> ?n * B" by (rule mult_le_mono1)
  from order_trans [OF this a] have "k * B + B \<le> T + B - 1" by (simp add: add.commute)
  then show ?thesis using assms(1) by linarith
qed

lemma generate_total:
  "(\<And>x. x \<in> set xs \<Longrightarrow> f x = Inr (g x)) \<Longrightarrow> generate f xs = (map g xs, None)"
  by (induction xs) auto

lemma map_shift: "map (\<lambda>k. w (m + k)) [0 ..< c] = map w [m ..< m + c]"
  by (induction c) auto

lemma min_step: "\<not> T \<le> m \<Longrightarrow> min T (m + B) = m + min (T - m) B" for m :: nat
  by (auto simp: min_def)

lemma concat_step:
  "map w [0 ..< min T m] @ map (\<lambda>k. w (m + k)) [0 ..< min (T - m) B] = map w [0 ..< min T (m + B)]"
proof (cases "T \<le> m")
  case True
  then show ?thesis by (simp add: min_def)
next
  case False
  then have a: "min T m = m" by simp
  have b: "min T (m + B) = m + min (T - m) B" by (rule min_step [OF False])
  have c: "[0 ..< m + min (T - m) B] = [0 ..< m] @ [m ..< m + min (T - m) B]"
    by (rule upt_add_eq_append) simp
  note d = map_shift [of w m "min (T - m) B"]
  show ?thesis
    by (simp only: a b c d map_append)
qed

lemma concat_batches:
  "concat (map (\<lambda>i. map (\<lambda>k. w (i + k)) [0 ..< min (T - i) B]) (map (\<lambda>k. k * B) [0 ..< n]))
     = map w [0 ..< min T (n * B)]"
proof (induction n)
  case 0
  then show ?case by simp
next
  case (Suc n)
  have "concat (map (\<lambda>i. map (\<lambda>k. w (i + k)) [0 ..< min (T - i) B]) (map (\<lambda>k. k * B) [0 ..< Suc n]))
        = map w [0 ..< min T (n * B)] @ map (\<lambda>k. w (n * B + k)) [0 ..< min (T - n * B) B]"
    using Suc by (simp add: comp_def)
  also have "\<dots> = map w [0 ..< min T (n * B + B)]" by (fact concat_step [of w T "n * B" B])
  also have "n * B + B = Suc n * B" by simp
  finally show ?case .
qed

lemma window_of_slice:
  "m \<le> M \<Longrightarrow> take w (drop m (slice xs s (s + M + w))) = take w (drop (s + m) xs)"
  by (simp add: slice_def drop_take min_def add.commute)

lemma unfold_slice:
  assumes "0 < h" "0 < w" "0 < b" "i * h + (b - 1) * h + w \<le> length xs"
  shows "unfold (slice xs (i * h) (i * h + (b - 1) * h + w)) w h
         = Inr (map (\<lambda>k. take w (drop ((i + k) * h) xs)) [0 ..< b])"
proof -
  let ?s = "slice xs (i * h) (i * h + (b - 1) * h + w)"
  have len: "length ?s = (b - 1) * h + w"
    using assms(4) by (simp add: slice_def)
  have cnt: "(length ?s - w) div h + 1 = b"
    using assms len by simp
  have win: "take w (drop (k * h) ?s) = take w (drop ((i + k) * h) xs)" if "k < b" for k
  proof -
    have "k \<le> b - 1" using that by arith
    then have "k * h \<le> (b - 1) * h" by (rule mult_le_mono1)
    from window_of_slice [OF this, of w xs "i * h"] show ?thesis
      by (simp add: add_mult_distrib)
  qed
  have ok: "\<not> (w = 0 \<or> h = 0 \<or> length ?s < w)"
    using assms len by simp
  have maps: "map (\<lambda>k. take w (drop (k * h) ?s)) [0 ..< b]
              = map (\<lambda>k. take w (drop ((i + k) * h) xs)) [0 ..< b]"
    by (rule map_cong) (use win in auto)
  show ?thesis
    by (simp only: unfold_def ok if_False cnt maps)
qed

lemma batch_at_ok:
  assumes "0 < H" "0 < WINDOW_SIZE env" "0 < B" "i < T"
    and fits: "(T - 1) * H + WINDOW_SIZE env \<le> length padded"
  shows "batch_at env padded H T B i
         = Inr (map (\<lambda>k. take (WINDOW_SIZE env) (drop ((i + k) * H) padded)) [0 ..< min (T - i) B],
                min (T - i) B)"
proof -
  let ?b = "min (T - i) B"
  have b: "0 < ?b" using assms by simp
  have "i + (?b - 1) \<le> T - 1" using assms(3,4) by (auto simp: min_def)
  then have "(i + (?b - 1)) * H \<le> (T - 1) * H" by (rule mult_le_mono1)
  then have "i * H + (?b - 1) * H + WINDOW_SIZE env \<le> length padded"
    using fits by (simp add: add_mult_distrib)
  from unfold_slice [OF assms(1) assms(2) b this] show ?thesis
    by (simp add: batch_at_def Let_def)
qed

lemma resample_if:
  "(if sample_rate \<noteq> SAMPLE_RATE env then resample env audio sample_rate else audio)
   = resample env audio sample_rate"
  by (simp add: resample_def)

text \<open>
  With a positive batch size, a hop that is not longer than the window and an even
  difference between the two, the iteration never raises and its batches are these.
\<close>

lemma preprocess_batches:
  assumes hop: "seconds_to_samples env hopsize = H" and H: "0 < H" and B: "0 < B"
    and W: "H \<le> WINDOW_SIZE env" and ev: "even (WINDOW_SIZE env - H)"
  shows "preprocess env audio sample_rate hopsize (Some B) =
    (let a = resample env audio sample_rate;
         p = (WINDOW_SIZE env - H) div 2;
         padded = replicate p 0 @ a @ replicate p 0;
         T = length a div H
     in (map (\<lambda>i. (map (\<lambda>k. take (WINDOW_SIZE env) (drop ((i + k) * H) padded)) [0 ..< min (T - i) (nat B)],
                    min (T - i) (nat B)))
             (map (\<lambda>k. k * nat B) [0 ..< (T + nat B - 1) div nat B]), None))"
proof -
  define a where "a = resample env audio sample_rate"
  define p where "p = (WINDOW_SIZE env - H) div 2"
  define padded where "padded = replicate p 0 @ a @ replicate p 0"
  define T where "T = length a div H"
  define g where "g = (\<lambda>i. (map (\<lambda>k. take (WINDOW_SIZE env) (drop ((i + k) * H) padded)) [0 ..< min (T - i) (nat B)],
                         min (T - i) (nat B)))"
  define idx where "idx = map (\<lambda>k. k * nat B) [0 ..< (T + nat B - 1) div nat B]"
  have Wpos: "0 < WINDOW_SIZE env" using H W by simp
  have nB: "0 < nat B" using B by simp
  have pad: "pad a (padding_of (WINDOW_SIZE env) H) = Inr padded"
    using W by (simp add: pad_def padding_of_def padded_def p_def)
  have rng: "py_range T B = Inr idx"
    using B by (simp add: py_range_def idx_def)
  have each: "batch_at env padded H T (nat B) i = Inr (g i)" if "i \<in> set idx" for i
  proof -
    from that obtain k where k: "k < (T + nat B - 1) div nat B" "i = k * nat B"
      by (auto simp: idx_def)
    then have iT: "i < T" using range_last [OF nB] by simp
    have "2 * p = WINDOW_SIZE env - H" using ev by (simp add: p_def)
    then have len: "length padded = length a + (WINDOW_SIZE env - H)" by (simp add: padded_def)
    have "T * H \<le> length a" by (simp add: T_def)
    moreover have "(T - 1) * H + H = T * H" using iT by (cases T) simp_all
    ultimately have "(T - 1) * H + WINDOW_SIZE env \<le> length padded"
      using len W by linarith
    from batch_at_ok [OF H Wpos nB iT this] show ?thesis by (simp add: g_def)
  qed
  have "generate (batch_at env padded H T (nat B)) idx = (map g idx, None)"
    by (rule generate_total) (rule each)
  then have "preprocess env audio sample_rate hopsize (Some B) = (map g idx, None)"
    using H pad rng
    by (simp add: preprocess_def hop resample_if Let_def a_def [symmetric] T_def [symmetric])
  then show ?thesis
    by (simp add: Let_def g_def idx_def a_def p_def padded_def T_def)
qed

text \<open>
  For audio at the model's sample rate, a hop of H samples that is not longer than the
  window, an even difference between window and hop, and a positive batch size B,
  \<open>preprocess\<close> yields without raising; the sizes of its batches sum to
  \<open>floor (S / H)\<close>, every batch holds as many frames as its size says, and the frames of all
  batches, in order, are the windows of the padded audio at the offsets
  \<open>0, H, ..., (floor (S / H) - 1) * H\<close>, each once, whatever B is.
\<close>

lemma preprocess_frame_count:
  assumes "seconds_to_samples env hopsize = H" and "0 < H" and "0 < B"
    and "H \<le> WINDOW_SIZE env" and "even (WINDOW_SIZE env - H)"
  shows "\<exists>batches.
           preprocess env audio (SAMPLE_RATE env) hopsize (Some B) = (batches, None) \<and>
           sum_list (map snd batches) = length audio div H \<and>
           map (\<lambda>(frames, batch). length frames) batches = map snd batches \<and>
           concat (map fst batches) =
             map (\<lambda>k. take (WINDOW_SIZE env)
                        (drop (k * H) (replicate ((WINDOW_SIZE env - H) div 2) 0 @ audio @
                                       replicate ((WINDOW_SIZE env - H) div 2) 0)))
                 [0 ..< length audio div H]"
proof -
  define T where "T = length audio div H"
  define n where "n = (T + nat B - 1) div nat B"
  define padded where
    "padded = replicate ((WINDOW_SIZE env - H) div 2) 0 @ audio @ replicate ((WINDOW_SIZE env - H) div 2) (0::real)"
  define w where "w = (\<lambda>k. take (WINDOW_SIZE env) (drop (k * H) padded))"
  define batches where
    "batches = map (\<lambda>i. (map (\<lambda>k. w (i + k)) [0 ..< min (T - i) (nat B)], min (T - i) (nat B)))
                   (map (\<lambda>k. k * nat B) [0 ..< n])"
  have nB: "0 < nat B" using assms(3) by simp
  have full: "min T (n * nat B) = T"
    using range_covers [OF nB, of T] by (simp add: n_def)
  have run: "preprocess env audio (SAMPLE_RATE env) hopsize (Some B) = (batches, None)"
    using preprocess_batches [OF assms, of audio "SAMPLE_RATE env"]
    by (simp add: Let_def resample_def batches_def w_def padded_def T_def n_def)
  have "map snd batches = map (\<lambda>k. min (T - k * nat B) (nat B)) [0 ..< n]"
    by (simp add: batches_def comp_def)
  then have total: "sum_list (map snd batches) = T"
    using sum_batches [of T "nat B" n] full by simp
  have sizes: "map (\<lambda>(frames, batch). length frames) batches = map snd batches"
    by (simp add: batches_def comp_def)
  have "concat (map fst batches) =
        concat (map (\<lambda>i. map (\<lambda>k. w (i + k)) [0 ..< min (T - i) (nat B)]) (map (\<lambda>k. k * nat B) [0 ..< n]))"
    by (simp add: batches_def comp_def)
  also have "\<dots> = map w [0 ..< min T (n * nat B)]" by (fact concat_batches)
  finally have frames: "concat (map fst batches) = map w [0 ..< T]" by (simp only: full)
  from run total sizes frames show ?thesis
    unfolding T_def w_def padded_def by blast
qed

lemma preprocess_frame_count_example:
  "seconds_to_samples tiny 0.01 = 2 \<and> (0::nat) < 2 \<and> (0::int) < 1 \<and>
   2 \<le> WINDOW_SIZE tiny \<and> even (WINDOW_SIZE tiny - 2) \<and>
   (\<exists>batches.
      preprocess tiny [1, 5, 2, 0] (SAMPLE_RATE tiny) 0.01 (Some 1) = (batches, None) \<and>
      sum_list (map snd batches) = 2 \<and>
      map (\<lambda>(frames, batch). length frames) batches = map snd batches \<and>
      concat (map fst batches) = [[0, 1, 5, 2], [5, 2, 0, 0]])"
proof -
  have h: "seconds_to_samples tiny 0.01 = 2" "(0::nat) < 2" "(0::int) < 1"
    "2 \<le> WINDOW_SIZE tiny" "even (WINDOW_SIZE tiny - 2)"
    by (simp_all add: tiny_def)
  have l: "length [1, 5, 2, 0::real] div 2 = 2" by simp
  have w: "map (\<lambda>k. take (WINDOW_SIZE tiny)
                  (drop (k * 2) (replicate ((WINDOW_SIZE tiny - 2) div 2) 0 @ [1, 5, 2, 0::real] @
                                 replicate ((WINDOW_SIZE tiny - 2) div 2) 0)))
               [0 ..< 2] = [[0, 1, 5, 2], [5, 2, 0, 0]]"
    by (simp add: tiny_def upt_rec [of 0] upt_rec [of 1] eval_nat_numeral)
  from preprocess_frame_count [OF h, of "[1, 5, 2, 0]"] show ?thesis
    unfolding l w using h by simp
qed

text \<open>
  C1.  The batches of \<open>preprocess\<close> hold \<open>floor (S / H)\<close> frames in total when the
  difference between window and hop is even (\<open>preprocess_frame_count\<close>).  When it is odd,
  the padding \<open>int((WINDOW_SIZE - hopsize) / 2)\<close> is half a sample short on each side: for
  a buffer of exactly one hop the frame count is 1, the padded buffer is one sample shorter
  than a window, and the iteration raises instead of yielding the frame, whatever the
  batch size.
\<close>

theorem preprocess_odd_difference:
  assumes "seconds_to_samples env hopsize = H" and "0 < H" and "0 < B"
    and "H \<le> WINDOW_SIZE env" and "odd (WINDOW_SIZE env - H)" and "length audio = H"
  shows "length audio div H = 1 \<and>
         preprocess env audio (SAMPLE_RATE env) hopsize (Some B)
           = ([], Some (RuntimeError ''sliding blocks must be positive''))"
proof -
  let ?W = "WINDOW_SIZE env"
  let ?p = "(?W - H) div 2"
  let ?padded = "replicate ?p 0 @ audio @ replicate ?p (0::real)"
  have T: "length audio div H = 1" using assms(2,6) by simp
  have pad: "pad audio (padding_of ?W H) = Inr ?padded"
    using assms(4) by (simp add: pad_def padding_of_def)
  have "2 * ?p + 1 = ?W - H" using assms(5) by (metis odd_two_times_div_two_succ)
  then have short: "length ?padded < ?W" using assms(4,6) by simp
  have "(1 + nat B - 1) div nat B = 1" using assms(3) by simp
  then have rng: "py_range (Suc 0) B = Inr [0]" using assms(3) by (simp add: py_range_def)
  have "length (slice ?padded 0 (0 + (min (1 - 0) (nat B) - 1) * H + ?W)) < ?W"
    using short by (simp add: slice_def)
  then have "batch_at env ?padded H (Suc 0) (nat B) 0
             = Inl (RuntimeError ''sliding blocks must be positive'')"
    by (simp add: batch_at_def Let_def unfold_def del: length_append length_replicate)
  then have "preprocess env audio (SAMPLE_RATE env) hopsize (Some B)
           = ([], Some (RuntimeError ''sliding blocks must be positive''))"
    using assms(2) by (simp add: preprocess_def assms(1) Let_def T pad rng)
  with T show ?thesis by simp
qed

theorem preprocess_odd_difference_witness:
  "seconds_to_samples (tiny\<lparr>seconds_to_samples := \<lambda>s. 1\<rparr>) 0.01 = 1 \<and> (0::nat) < 1 \<and> (0::int) < 1 \<and>
   1 \<le> WINDOW_SIZE (tiny\<lparr>seconds_to_samples := \<lambda>s. 1\<rparr>) \<and>
   odd (WINDOW_SIZE (tiny\<lparr>seconds_to_samples := \<lambda>s. 1\<rparr>) - 1) \<and> length [5::real] = 1 \<and>
   length [5::real] div 1 = 1 \<and>
   preprocess (tiny\<lparr>seconds_to_samples := \<lambda>s. 1\<rparr>) [5] 8 0.01 (Some 1)
     = ([], Some (RuntimeError ''sliding blocks must be positive''))"
proof -
  let ?env = "tiny\<lparr>seconds_to_samples := \<lambda>s. 1\<rparr>"
  have h: "seconds_to_samples ?env 0.01 = 1" "(0::nat) < 1" "(0::int) < 1"
    "1 \<le> WINDOW_SIZE ?env" "odd (WINDOW_SIZE ?env - 1)" "length [5::real] = 1"
    by (simp_all add: tiny_def)
  have s: "SAMPLE_RATE ?env = 8" "SAMPLE_RATE tiny = 8" by (simp_all add: tiny_def)
  from preprocess_odd_difference [OF h] show ?thesis
    using h by (simp add: s)
qed

text \<open>With two frames in one batch the last frame is missing from the batch.\<close>

lemma preprocess_odd_difference_example:
  "map (\<lambda>(frames, batch). (length frames, batch))
     (fst (preprocess (tiny\<lparr>seconds_to_samples := \<lambda>s. 1\<rparr>) [5, 7] 8 0.01 (Some 2))) = [(1, 2)] \<and>
   snd (preprocess (tiny\<lparr>seconds_to_samples := \<lambda>s. 1\<rparr>) [5, 7] 8 0.01 (Some 2)) = None"
  by code_simp

text \<open>
  C2.  For audio shorter than one hop the frame count is zero.  With the default batch
  size the batch size is then zero as well and \<open>range(0, 0, 0)\<close> raises ValueError when
  the first batch is asked for; with an explicit batch size other than zero the sequence is
  empty and nothing is raised.
\<close>

theorem preprocess_short_audio:
  assumes "seconds_to_samples env hopsize = H" and "0 < H" and "length audio < H"
    and "H \<le> WINDOW_SIZE env"
  shows "preprocess env audio (SAMPLE_RATE env) hopsize None
           = ([], Some (ValueError ''range() arg 3 must not be zero'')) \<and>
         (\<forall>B. B \<noteq> 0 \<longrightarrow> preprocess env audio (SAMPLE_RATE env) hopsize (Some B) = ([], None))"
proof -
  have T: "length audio div H = 0" using assms(3) by simp
  have pad: "pad audio (padding_of (WINDOW_SIZE env) H)
             = Inr (replicate ((WINDOW_SIZE env - H) div 2) 0 @ audio @
                    replicate ((WINDOW_SIZE env - H) div 2) 0)"
    using assms(4) by (simp add: pad_def padding_of_def)
  have none: "preprocess env audio (SAMPLE_RATE env) hopsize None
           = ([], Some (ValueError ''range() arg 3 must not be zero''))"
    using assms(2) by (simp add: preprocess_def assms(1) Let_def T pad py_range_def)
  have some: "preprocess env audio (SAMPLE_RATE env) hopsize (Some B) = ([], None)"
    if "B \<noteq> 0" for B
  proof -
    have "py_range 0 B = Inr []" using that by (simp add: py_range_def)
    then show ?thesis
      using assms(2) by (simp add: preprocess_def assms(1) Let_def T pad)
  qed
  from none some show ?thesis by blast
qed

theorem preprocess_short_audio_witness:
  "seconds_to_samples tiny 0.01 = 2 \<and> (0::nat) < 2 \<and> length [1::real] < 2 \<and>
   2 \<le> WINDOW_SIZE tiny \<and>
   preprocess tiny [1] (SAMPLE_RATE tiny) 0.01 None
     = ([], Some (ValueError ''range() arg 3 must not be zero'')) \<and>
   preprocess tiny [1] (SAMPLE_RATE tiny) 0.01 (Some 3) = ([], None)"
proof -
  have h: "seconds_to_samples tiny 0.01 = 2" "(0::nat) < 2" "length [1::real] < 2"
    "2 \<le> WINDOW_SIZE tiny"
    by (simp_all add: tiny_def)
  from preprocess_short_audio [OF h] show ?thesis using h by simp
qed

section \<open>Properties of the postprocessor\<close>

lemma length_fill_below: "length (fill_below m row) = length row"
  by (simp add: fill_below_def)

lemma length_fill_from: "length (fill_from m row) = length row"
  by (simp add: fill_from_def)

lemma nth_fill_below:
  "b < length row \<Longrightarrow> fill_below m row ! b = (if b < m then NegInf else row ! b)"
  by (auto simp: fill_below_def nth_append min_def)

lemma nth_fill_from:
  "b < length row \<Longrightarrow> fill_from m row ! b = (if m \<le> b then NegInf else row ! b)"
  by (auto simp: fill_from_def nth_append min_def)

lemma fst_postprocess:
  "fst (postprocess env logits fmin fmax)
   = map (\<lambda>row. fill_from (frequency_to_bins env fmax Ceil)
                  (fill_below (frequency_to_bins env fmin Floor) row)) logits"
  by (simp add: postprocess_def Let_def comp_def)

lemma nth_masked:
  assumes "t < length logits" and "b < length (logits ! t)"
  shows "fst (postprocess env logits fmin fmax) ! t ! b
         = (if b < frequency_to_bins env fmin Floor \<or> frequency_to_bins env fmax Ceil \<le> b
            then NegInf else logits ! t ! b)"
  using assms by (simp add: fst_postprocess nth_fill_from nth_fill_below length_fill_below)

text \<open>
  C9.  The logits tensor of the caller after a call of \<open>postprocess\<close>, whether the call
  returns or raises: same shape, negative infinity in every bin below \<open>minidx\<close> and at or
  above \<open>maxidx\<close>, and the other entries as they were.
\<close>

theorem postprocess_in_place:
  "length (fst (postprocess env logits fmin fmax)) = length logits \<and>
   (\<forall>t < length logits.
      length (fst (postprocess env logits fmin fmax) ! t) = length (logits ! t) \<and>
      (\<forall>b < length (logits ! t).
         fst (postprocess env logits fmin fmax) ! t ! b
         = (if b < frequency_to_bins env fmin Floor \<or> frequency_to_bins env fmax Ceil \<le> b
            then NegInf else logits ! t ! b)))"
  by (simp add: nth_masked) (simp add: fst_postprocess length_fill_from length_fill_below)

theorem postprocess_in_place_witness:
  "fst (postprocess tiny [[Fin 4, Fin 5, Fin 6]] 1 2) ! 0 ! 0 = NegInf \<and>
   fst (postprocess tiny [[Fin 4, Fin 5, Fin 6]] 1 2) ! 0 ! 1 = Fin 5 \<and>
   fst (postprocess tiny [[Fin 4, Fin 5, Fin 6]] 1 2) ! 0 ! 2 = NegInf"
  using postprocess_in_place [of tiny "[[Fin 4, Fin 5, Fin 6]]" 1 2]
  by (simp add: tiny_def)

text \<open>
  C5.  When the decoder name is none of argmax, average, weighted and does not start with
  viterbi, \<open>postprocess\<close> raises a ValueError whose message holds the decoder name;
  otherwise, when the periodicity name is none of entropy, max, sum, it raises a ValueError
  whose message holds the periodicity name.
\<close>

theorem postprocess_unknown_strategy:
  assumes "\<not> (DECODER env \<in> {''argmax'', ''average'', ''weighted''} \<or> prefix ''viterbi'' (DECODER env))
           \<or> PERIODICITY env \<notin> {''entropy'', ''max'', ''sum''}"
  shows "snd (postprocess env logits fmin fmax) =
           Inl (ValueError
             (if \<not> (DECODER env \<in> {''argmax'', ''average'', ''weighted''} \<or> prefix ''viterbi'' (DECODER env))
              then ''Decoder method '' @ DECODER env @ '' is not defined''
              else ''Periodicity method '' @ PERIODICITY env @ '' is not defined''))"
  using assms
  by (auto simp: postprocess_def Let_def decode_pitch_def decode_periodicity_def split: prod.splits)

theorem postprocess_unknown_strategy_witness:
  "snd (postprocess (tiny\<lparr>DECODER := ''crepe''\<rparr>) [[Fin 4, Fin 5, Fin 6]] 1 2)
     = Inl (ValueError ''Decoder method crepe is not defined'') \<and>
   snd (postprocess (tiny\<lparr>PERIODICITY := ''mean''\<rparr>) [[Fin 4, Fin 5, Fin 6]] 1 2)
     = Inl (ValueError ''Periodicity method mean is not defined'')"
  using postprocess_unknown_strategy [of "tiny\<lparr>DECODER := ''crepe''\<rparr>" "[[Fin 4, Fin 5, Fin 6]]" 1 2]
    postprocess_unknown_strategy [of "tiny\<lparr>PERIODICITY := ''mean''\<rparr>" "[[Fin 4, Fin 5, Fin 6]]" 1 2]
  by (simp add: tiny_def)

lemma logit_less_trans: "logit_less a b \<Longrightarrow> logit_less b c \<Longrightarrow> logit_less a c"
  by (cases a; cases b; cases c) auto

lemma logit_less_irrefl: "\<not> logit_less a a"
  by (cases a) auto

lemma logit_not_less_trans: "\<not> logit_less a b \<Longrightarrow> \<not> logit_less b c \<Longrightarrow> \<not> logit_less a c"
  by (cases a; cases b; cases c) auto

lemma best_index:
  "xs \<noteq> [] \<Longrightarrow> fst (best xs) < length xs \<and> xs ! fst (best xs) = snd (best xs)"
proof (induction xs)
  case Nil
  then show ?case by simp
next
  case (Cons x xs)
  show ?case
  proof (cases "xs = []")
    case True
    then show ?thesis by simp
  next
    case False
    with Cons.IH show ?thesis by (auto split: prod.splits)
  qed
qed

lemma best_greatest: "x \<in> set xs \<Longrightarrow> \<not> logit_less (snd (best xs)) x"
proof (induction xs)
  case Nil
  then show ?case by simp
next
  case (Cons y ys)
  obtain i v where b: "best ys = (i, v)" by (cases "best ys")
  show ?case
  proof (cases "ys = []")
    case True
    with Cons.prems show ?thesis by (simp add: logit_less_irrefl)
  next
    case False
    show ?thesis
    proof (cases "x = y")
      case True
      then show ?thesis
        using b False by (auto simp: logit_less_irrefl dest: logit_less_trans)
    next
      case ne: False
      with Cons.prems have "x \<in> set ys" by simp
      from Cons.IH [OF this] have "\<not> logit_less v x" using b by simp
      then show ?thesis
        using b False by (auto dest: logit_not_less_trans)
    qed
  qed
qed

text \<open>The argmax of a row that holds a float is a bin of the row that holds a float.\<close>

lemma best_finite:
  assumes "Fin y \<in> set row"
  shows "fst (best row) < length row \<and> row ! fst (best row) \<noteq> NegInf"
proof -
  from assms have ne: "row \<noteq> []" by auto
  from best_greatest [OF assms] have "snd (best row) \<noteq> NegInf" by auto
  with best_index [OF ne] show ?thesis by simp
qed

lemma nth_masked_row:
  "b < length row \<Longrightarrow>
   fill_from M (fill_below m row) ! b = (if b < m \<or> M \<le> b then NegInf else row ! b)"
  by (simp add: nth_fill_from nth_fill_below length_fill_below)

text \<open>
  With the argmax decoder of the specification, a frame that holds a float in a bin of
  \<open>[minidx, maxidx)\<close> is decoded to a bin of \<open>[minidx, maxidx)\<close>.
\<close>

lemma spec_argmax_in_range:
  assumes dec: "DECODER env = ''argmax''" "decode_argmax env = spec_argmax f"
    and fin: "\<forall>row \<in> set logits. \<exists>b y. b < length row \<and> frequency_to_bins env fmin Floor \<le> b \<and>
                 b < frequency_to_bins env fmax Ceil \<and> row ! b = Fin y"
    and res: "snd (postprocess env logits fmin fmax) = Inr (bins, pitch, periodicity)"
  shows "\<forall>b \<in> set bins. frequency_to_bins env fmin Floor \<le> b \<and> b < frequency_to_bins env fmax Ceil"
proof -
  let ?m = "frequency_to_bins env fmin Floor" and ?M = "frequency_to_bins env fmax Ceil"
  let ?mask = "\<lambda>row. fill_from ?M (fill_below ?m row)"
  from res dec have bins: "bins = map (\<lambda>row. fst (best (?mask row))) logits"
    by (auto simp: postprocess_def Let_def decode_pitch_def spec_argmax_def comp_def
        split: sum.splits)
  have "?m \<le> fst (best (?mask row)) \<and> fst (best (?mask row)) < ?M" if "row \<in> set logits" for row
  proof -
    from fin that obtain b y where b: "b < length row" "?m \<le> b" "b < ?M" "row ! b = Fin y"
      by blast
    then have "?mask row ! b = Fin y" by (simp add: nth_masked_row)
    moreover have len: "length (?mask row) = length row"
      by (simp add: length_fill_from length_fill_below)
    ultimately have "Fin y \<in> set (?mask row)" using b(1) by (metis nth_mem)
    from best_finite [OF this] len
    have "fst (best (?mask row)) < length row" "?mask row ! fst (best (?mask row)) \<noteq> NegInf"
      by simp_all
    then show ?thesis by (simp add: nth_masked_row split: if_splits)
  qed
  then show ?thesis by (auto simp: bins)
qed

text \<open>The argmax decoder of the specification selects finite scores.\<close>

lemma spec_argmax_selects_finite:
  assumes "DECODER env = ''argmax''" and "decode_argmax env = spec_argmax f"
  shows "selects_finite (decode_pitch env)"
proof -
  have d: "decode_pitch env logits = Inr (map (\<lambda>row. fst (best row)) logits,
                                          map f (map (\<lambda>row. fst (best row)) logits))" for logits
    using assms by (simp add: decode_pitch_def spec_argmax_def Let_def)
  have "fst (best (logits ! t)) < length (logits ! t) \<and>
        logits ! t ! fst (best (logits ! t)) \<noteq> NegInf"
    if "t < length logits" "b < length (logits ! t)" "logits ! t ! b \<noteq> NegInf" for logits t b
  proof -
    from that(3) obtain y where "logits ! t ! b = Fin y" by (cases "logits ! t ! b") auto
    with that(2) have "Fin y \<in> set (logits ! t)" by (metis nth_mem)
    then show ?thesis by (rule best_finite)
  qed
  then show ?thesis
    unfolding selects_finite_def d by auto
qed

text \<open>
  C4, as amended.  \<open>postprocess\<close> sets every logit of a bin below \<open>minidx\<close> or at or above
  \<open>maxidx\<close> to negative infinity, and the decoders of pitch and periodicity are run on
  the logits so masked; so, with a decoder that selects finite scores, for every frame
  that holds a score other than negative infinity in a bin of \<open>[minidx, maxidx)\<close> the bin
  decoded for the frame lies in \<open>[minidx, maxidx)\<close>.
\<close>

theorem postprocess_bins_in_range:
  assumes sel: "selects_finite (decode_pitch env)"
    and res: "snd (postprocess env logits fmin fmax) = Inr (bins, pitch, periodicity)"
  shows "(\<forall>t < length logits. \<forall>b < length (logits ! t).
            b < frequency_to_bins env fmin Floor \<or> frequency_to_bins env fmax Ceil \<le> b
            \<longrightarrow> fst (postprocess env logits fmin fmax) ! t ! b = NegInf) \<and>
         decode_pitch env (fst (postprocess env logits fmin fmax)) = Inr (bins, pitch) \<and>
         decode_periodicity env (fst (postprocess env logits fmin fmax)) = Inr periodicity \<and>
         length bins = length logits \<and>
         (\<forall>t < length logits.
            (\<exists>b < length (logits ! t).
               frequency_to_bins env fmin Floor \<le> b \<and> b < frequency_to_bins env fmax Ceil \<and>
               logits ! t ! b \<noteq> NegInf)
            \<longrightarrow> frequency_to_bins env fmin Floor \<le> bins ! t \<and>
                bins ! t < frequency_to_bins env fmax Ceil)"
proof -
  let ?m = "frequency_to_bins env fmin Floor" and ?M = "frequency_to_bins env fmax Ceil"
  define masked where "masked = fst (postprocess env logits fmin fmax)"
  have post: "snd (postprocess env logits fmin fmax) =
              (case decode_pitch env masked of
                 Inl e \<Rightarrow> Inl e
               | Inr (bins, pitch) \<Rightarrow>
                   (case decode_periodicity env masked of
                      Inl e \<Rightarrow> Inl e
                    | Inr periodicity \<Rightarrow> Inr (bins, pitch, periodicity)))"
  proof -
    have "masked = map (fill_from ?M) (map (fill_below ?m) logits)"
      by (simp add: masked_def postprocess_def Let_def del: map_map)
    then show ?thesis
      by (simp add: postprocess_def Let_def del: map_map split: sum.splits prod.splits)
  qed
  from res have dp: "decode_pitch env masked = Inr (bins, pitch)"
    and dq: "decode_periodicity env masked = Inr periodicity"
    unfolding post by (auto split: sum.splits prod.splits)
  have len: "length masked = length logits"
    and row: "\<And>t. t < length logits \<Longrightarrow> length (masked ! t) = length (logits ! t)"
    unfolding masked_def by (simp_all add: fst_postprocess length_fill_from length_fill_below)
  have nth: "masked ! t ! b = (if b < ?m \<or> ?M \<le> b then NegInf else logits ! t ! b)"
    if "t < length logits" "b < length (logits ! t)" for t b
    unfolding masked_def using that by (rule nth_masked)
  from sel dp have picks: "length bins = length masked"
    "\<And>t. t < length masked \<Longrightarrow> \<exists>b < length (masked ! t). masked ! t ! b \<noteq> NegInf \<Longrightarrow>
         bins ! t < length (masked ! t) \<and> masked ! t ! (bins ! t) \<noteq> NegInf"
    unfolding selects_finite_def by blast+
  have inside: "?m \<le> bins ! t \<and> bins ! t < ?M"
    if t: "t < length logits"
      and b: "\<exists>b < length (logits ! t). ?m \<le> b \<and> b < ?M \<and> logits ! t ! b \<noteq> NegInf" for t
  proof -
    from b obtain b where b: "b < length (logits ! t)" "?m \<le> b" "b < ?M" "logits ! t ! b \<noteq> NegInf"
      by auto
    then have "masked ! t ! b \<noteq> NegInf" using nth [OF t b(1)] by simp
    with b(1) have "\<exists>b < length (masked ! t). masked ! t ! b \<noteq> NegInf"
      using row [OF t] by auto
    with picks(2) [of t] t len
    have p: "bins ! t < length (logits ! t)" "masked ! t ! (bins ! t) \<noteq> NegInf"
      using row [OF t] by auto
    from nth [OF t p(1)] p(2) show ?thesis by (auto split: if_splits)
  qed
  have mask: "\<forall>t < length logits. \<forall>b < length (logits ! t).
            b < ?m \<or> ?M \<le> b \<longrightarrow> masked ! t ! b = NegInf"
    using nth by simp
  from mask dp dq picks(1) len inside show ?thesis
    unfolding masked_def by auto
qed

text \<open>
  With the argmax decoder of the specification, on two frames and the range \<open>[1, 3)\<close>:
  the largest logit of the second frame is in bin 0, and the bin decoded for it is bin 2.
\<close>

theorem postprocess_bins_in_range_witness:
  "selects_finite (decode_pitch tiny) \<and>
   postprocess tiny [[Fin 1, Fin 5, Fin 2, Fin 0], [Fin 9, Fin 0, Fin 3, Fin 1]] 1 3
     = ([[NegInf, Fin 5, Fin 2, NegInf], [NegInf, Fin 0, Fin 3, NegInf]],
        Inr ([1, 2], [1, 2], [1, 1])) \<and>
   frequency_to_bins tiny 1 Floor = 1 \<and> frequency_to_bins tiny 3 Ceil = 3 \<and>
   decode_pitch tiny [[NegInf, Fin 5, Fin 2, NegInf], [NegInf, Fin 0, Fin 3, NegInf]]
     = Inr ([1, 2], [1, 2]) \<and>
   frequency_to_bins tiny 1 Floor \<le> [1, 2] ! 1 \<and> [1, 2] ! 1 < frequency_to_bins tiny 3 Ceil"
proof -
  let ?logits = "[[Fin 1, Fin 5, Fin 2, Fin 0], [Fin 9, Fin 0, Fin 3, Fin 1]]"
  have sel: "selects_finite (decode_pitch tiny)"
    by (rule spec_argmax_selects_finite [of tiny real]) (simp_all add: tiny_def)
  have r: "postprocess tiny ?logits 1 3
           = ([[NegInf, Fin 5, Fin 2, NegInf], [NegInf, Fin 0, Fin 3, NegInf]],
              Inr ([1, 2], [1, 2], [1, 1]))"
    by (simp add: postprocess_def tiny_def Let_def fill_below_def fill_from_def
        decode_pitch_def decode_periodicity_def spec_argmax_def)
  have f: "frequency_to_bins tiny 1 Floor = 1" "frequency_to_bins tiny 3 Ceil = 3"
    by (simp_all add: tiny_def)
  have s: "snd (postprocess tiny ?logits 1 3) = Inr ([1, 2], [1, 2], [1, 1])"
    by (simp add: r)
  have e: "\<exists>b < length (?logits ! 1). frequency_to_bins tiny 1 Floor \<le> b \<and>
             b < frequency_to_bins tiny 3 Ceil \<and> ?logits ! 1 ! b \<noteq> NegInf"
    by (rule exI [of _ 2]) (simp add: f)
  from postprocess_bins_in_range [OF sel s] e sel r f show ?thesis
    by simp
qed

text \<open>
  C4 as stated fails when the range of bins is empty: with \<open>fmin = fmax = 3\<close> both indices
  are 3, every logit is masked, and the argmax decoder returns bin 0, three bins below the
  range, for a pitch of 0 that is not within one bin width of \<open>[3, 3]\<close>.
\<close>

theorem postprocess_empty_range_counterexample:
  "frequency_to_bins tiny 3 Floor = 3 \<and> frequency_to_bins tiny 3 Ceil = 3 \<and>
   postprocess tiny [[Fin 1, Fin 5, Fin 2, Fin 0]] 3 3
     = ([[NegInf, NegInf, NegInf, NegInf]], Inr ([0], [0], [1])) \<and>
   \<not> (frequency_to_bins tiny 3 Floor \<le> 0 \<and> 0 < frequency_to_bins tiny 3 Ceil) \<and>
   \<not> (3 - 1 \<le> (0::real) \<and> (0::real) \<le> 3 + 1)"
  by (simp add: postprocess_def tiny_def Let_def fill_below_def fill_from_def
      decode_pitch_def decode_periodicity_def spec_argmax_def)

section \<open>Properties of the inference runner\<close>

lemma fst_infer: "fst (infer env w dev frames ckpt) = load_and_cache env w dev ckpt"
  by (simp add: infer_def Let_def split: option.splits)

lemma attrs_load_and_cache:
  "\<exists>a. attrs (load_and_cache env w dev ckpt) = Some a \<and>
       checkpoint a = ckpt \<and> device_type a = dev_type dev"
  by (cases "attrs w") (auto simp: load_and_cache_def needs_load_def)

lemma infer_calls_cached:
  "attrs w = Some a \<Longrightarrow>
   infer_calls env w calls = spec_handles env (Some (checkpoint a, device_type a, model a)) calls"
proof (induction calls arbitrary: w a)
  case Nil
  then show ?case by simp
next
  case (Cons call calls)
  obtain dev frames ckpt where call: "call = (dev, frames, ckpt)" by (cases call)
  let ?w = "load_and_cache env w dev ckpt"
  show ?case
  proof (cases "needs_load w dev ckpt")
    case True
    let ?a = "\<lparr>model = model_to env (checkpoint_load env ckpt) dev, checkpoint = ckpt,
               device_type = dev_type dev\<rparr>"
    have w: "attrs ?w = Some ?a" "loaded ?w = loaded w @ [ckpt]"
      using True by (simp_all add: load_and_cache_def)
    have differ: "\<not> (checkpoint a = ckpt \<and> device_type a = dev_type dev)"
      using True Cons.prems by (simp add: needs_load_def)
    from Cons.IH [OF w(1)] differ w show ?thesis
      by (auto simp: call fst_infer Let_def)
  next
    case False
    then have w: "?w = w" by (simp add: load_and_cache_def)
    have same: "checkpoint a = ckpt \<and> device_type a = dev_type dev"
      using False Cons.prems by (simp add: needs_load_def)
    from Cons.IH [OF Cons.prems] same show ?thesis
      by (simp add: call fst_infer Let_def w Cons.prems)
  qed
qed

text \<open>
  C7.  From a process that has not called \<open>infer\<close> yet, every sequence of calls reads
  checkpoints and holds model handles exactly as the rule of the specification says: the
  first call loads; a later call reuses the handle when its checkpoint path and the device
  type of its frames are those of the previous call, and otherwise loads from its
  checkpoint and moves the model to the device of its frames.
\<close>

theorem infer_reuses_handle:
  assumes "attrs w = None"
  shows "infer_calls env w calls = spec_handles env None calls"
proof (cases calls)
  case Nil
  then show ?thesis by simp
next
  case (Cons call rest)
  obtain dev frames ckpt where call: "call = (dev, frames, ckpt)" by (cases call)
  let ?a = "\<lparr>model = model_to env (checkpoint_load env ckpt) dev, checkpoint = ckpt,
             device_type = dev_type dev\<rparr>"
  let ?w = "load_and_cache env w dev ckpt"
  have w: "attrs ?w = Some ?a" "loaded ?w = loaded w @ [ckpt]"
    using assms by (simp_all add: load_and_cache_def needs_load_def)
  from infer_calls_cached [OF w(1)] w show ?thesis
    by (simp add: Cons call fst_infer Let_def)
qed

theorem infer_reuses_handle_witness:
  "attrs (fresh :: (path \<times> string) world) = None \<and>
   infer_calls tiny fresh
     [(device_of None, [], Path [] [''a'']),
      (device_of None, [], Path [] [''a'']),
      (device_of (Some 0), [], Path [] [''a'']),
      (device_of (Some 1), [], Path [] [''a'']),
      (device_of (Some 1), [], Path [] [''b''])]
   = [(True, Some (Path [] [''a''], ''cpu'')),
      (False, Some (Path [] [''a''], ''cpu'')),
      (True, Some (Path [] [''a''], ''cuda'')),
      (False, Some (Path [] [''a''], ''cuda'')),
      (True, Some (Path [] [''b''], ''cuda''))]"
proof -
  have h: "attrs (fresh :: (path \<times> string) world) = None" by (simp add: fresh_def)
  show ?thesis
    unfolding infer_reuses_handle [OF h]
    by (simp add: h tiny_def device_of_def Let_def)
qed

section \<open>Properties of the orchestrator\<close>

lemma load_and_cache_files:
  "opened (load_and_cache env w dev ckpt) = opened w \<and>
   saved (load_and_cache env w dev ckpt) = saved w"
  by (simp add: load_and_cache_def)

lemma from_audio_loop_files:
  "opened (fst (from_audio_loop env w dev ckpt fmin fmax batches)) = opened w \<and>
   saved (fst (from_audio_loop env w dev ckpt fmin fmax batches)) = saved w"
proof (induction batches arbitrary: w)
  case Nil
  then show ?case by simp
next
  case (Cons batch batches)
  obtain frames n where batch: "batch = (frames, n)" by (cases batch)
  obtain w1 logits where i: "infer env w dev frames ckpt = (w1, logits)"
    by (cases "infer env w dev frames ckpt")
  then have "w1 = load_and_cache env w dev ckpt" using fst_infer [of env w dev frames ckpt] by simp
  then have w1: "opened w1 = opened w" "saved w1 = saved w"
    by (simp_all add: load_and_cache_files)
  show ?case
    using Cons.IH [of w1] w1
    by (auto simp: batch i split: sum.splits prod.splits)
qed

lemma from_audio_files:
  "opened (fst (from_audio env w audio sample_rate hopsize fmin fmax ckpt batch_size gpu)) = opened w \<and>
   saved (fst (from_audio env w audio sample_rate hopsize fmin fmax ckpt batch_size gpu)) = saved w"
proof -
  obtain batches raised where p: "preprocess env audio sample_rate hopsize batch_size = (batches, raised)"
    by (cases "preprocess env audio sample_rate hopsize batch_size")
  obtain w' r where l: "from_audio_loop env w (device_of gpu) ckpt fmin fmax batches = (w', r)"
    by (cases "from_audio_loop env w (device_of gpu) ckpt fmin fmax batches")
  have "fst (from_audio env w audio sample_rate hopsize fmin fmax ckpt batch_size gpu) = w'"
    by (simp add: from_audio_def p l split: sum.splits prod.splits option.splits)
  moreover have "opened w' = opened w \<and> saved w' = saved w"
    using from_audio_loop_files [of env w "device_of gpu" ckpt fmin fmax batches] by (simp add: l)
  ultimately show ?thesis by simp
qed

lemma from_file_files:
  "opened (fst (from_file env w file hopsize fmin fmax ckpt batch_size gpu)) = opened w @ [file] \<and>
   saved (fst (from_file env w file hopsize fmin fmax ckpt batch_size gpu)) = saved w"
  by (simp add: from_file_def Let_def from_audio_files)

text \<open>At the sample rate of the model nothing depends on the resampling filter.\<close>

lemma batch_at_resampler: "batch_at (env\<lparr>resampler := r\<rparr>) = batch_at env"
  by (intro ext) (simp add: batch_at_def)

lemma preprocess_resampler:
  "preprocess (env\<lparr>resampler := r\<rparr>) audio (SAMPLE_RATE env) hopsize batch_size
   = preprocess env audio (SAMPLE_RATE env) hopsize batch_size"
  by (simp add: preprocess_def batch_at_resampler Let_def split: sum.splits)

lemma infer_resampler: "infer (env\<lparr>resampler := r\<rparr>) = infer env"
  by (intro ext) (simp add: infer_def load_and_cache_def Let_def split: option.splits)

lemma decode_pitch_resampler: "decode_pitch (env\<lparr>resampler := r\<rparr>) = decode_pitch env"
  by (intro ext) (simp add: decode_pitch_def)

lemma decode_periodicity_resampler:
  "decode_periodicity (env\<lparr>resampler := r\<rparr>) = decode_periodicity env"
  by (intro ext) (simp add: decode_periodicity_def)

lemma postprocess_resampler: "postprocess (env\<lparr>resampler := r\<rparr>) = postprocess env"
  by (intro ext)
    (simp add: postprocess_def decode_pitch_resampler decode_periodicity_resampler Let_def
      split: sum.splits prod.splits)

lemma from_audio_loop_resampler:
  "from_audio_loop (env\<lparr>resampler := r\<rparr>) w dev ckpt fmin fmax batches
   = from_audio_loop env w dev ckpt fmin fmax batches"
proof (induction batches arbitrary: w)
  case Nil
  show ?case by simp
next
  case (Cons batch batches)
  obtain frames n where batch: "batch = (frames, n)" by (cases batch)
  show ?case
    by (simp add: batch infer_resampler postprocess_resampler Cons.IH
        split: sum.splits prod.splits)
qed

lemma from_audio_resampler:
  "from_audio (env\<lparr>resampler := r\<rparr>) w audio (SAMPLE_RATE env) hopsize fmin fmax ckpt batch_size gpu
   = from_audio env w audio (SAMPLE_RATE env) hopsize fmin fmax ckpt batch_size gpu"
  by (simp add: from_audio_def preprocess_resampler from_audio_loop_resampler
      split: sum.splits prod.splits)

text \<open>
  C3, as amended.  \<open>from_file\<close> returns what \<open>from_audio\<close> returns on the loaded buffer
  with \<open>penn.SAMPLE_RATE\<close>, the sample rate of the model, as the sample rate, and all other
  arguments passed through; the loaded buffer is therefore never resampled, and the result
  is the same whatever the resampling filter is.
\<close>

theorem from_file_delegates:
  "from_file env w file hopsize fmin fmax ckpt batch_size gpu
   = from_audio env (w\<lparr>opened := opened w @ [file]\<rparr>) (load_audio env file) (SAMPLE_RATE env)
       hopsize fmin fmax ckpt batch_size gpu \<and>
   from_file (env\<lparr>resampler := r\<rparr>) w file hopsize fmin fmax ckpt batch_size gpu
   = from_file env w file hopsize fmin fmax ckpt batch_size gpu"
proof -
  have "from_file (env\<lparr>resampler := r\<rparr>) w file hopsize fmin fmax ckpt batch_size gpu
        = from_audio (env\<lparr>resampler := r\<rparr>) (w\<lparr>opened := opened w @ [file]\<rparr>) (load_audio env file)
            (SAMPLE_RATE env) hopsize fmin fmax ckpt batch_size gpu"
    by (simp add: from_file_def Let_def)
  also have "\<dots> = from_audio env (w\<lparr>opened := opened w @ [file]\<rparr>) (load_audio env file)
            (SAMPLE_RATE env) hopsize fmin fmax ckpt batch_size gpu"
    by (rule from_audio_resampler)
  finally show ?thesis by (simp add: from_file_def Let_def)
qed

theorem from_file_delegates_witness:
  "snd (from_file tiny fresh (Path ''/'' [''data'', ''a.wav'']) 0.01 1 3 (Path ''/'' [''m.pt'']) None None)
   = Inr ([2, 1, 1, 1], [1, 1, 1, 1])"
proof -
  have "snd (from_audio tiny (fresh\<lparr>opened := opened fresh @ [Path ''/'' [''data'', ''a.wav'']]\<rparr>)
               (load_audio tiny (Path ''/'' [''data'', ''a.wav''])) (SAMPLE_RATE tiny)
               0.01 1 3 (Path ''/'' [''m.pt'']) None None)
        = Inr ([2, 1, 1, 1], [1, 1, 1, 1])"
    by code_simp
  then show ?thesis
    by (simp only: from_file_delegates [THEN conjunct1])
qed

text \<open>
  C3 as stated fails for a file whose own sample rate is not that of the model: for a
  file recorded at 16 samples a second, \<open>from_audio\<close> at that rate resamples the loaded
  buffer and gives two frames, where \<open>from_file\<close> gives the four frames of the buffer as
  loaded.
\<close>

theorem from_file_native_rate_counterexample:
  "SAMPLE_RATE tiny = 8 \<and>
   snd (from_file tiny fresh (Path ''/'' [''data'', ''a.wav'']) 0.01 1 3 (Path ''/'' [''m.pt'']) None None)
     = Inr ([2, 1, 1, 1], [1, 1, 1, 1]) \<and>
   snd (from_audio tiny (fresh\<lparr>opened := [Path ''/'' [''data'', ''a.wav'']]\<rparr>)
          (load_audio tiny (Path ''/'' [''data'', ''a.wav''])) 16
          0.01 1 3 (Path ''/'' [''m.pt'']) None None)
     = Inr ([2, 1], [1, 1])"
  by code_simp


text \<open>When \<open>from_file\<close> raises, \<open>from_file_to_file\<close> raises the same and saves nothing.\<close>

lemma from_file_to_file_raises:
  assumes "snd (from_file env w file hopsize fmin fmax ckpt batch_size gpu) = Inl e"
  shows "snd (from_file_to_file env w file output_prefix hopsize fmin fmax ckpt batch_size gpu) = Some e \<and>
         saved (fst (from_file_to_file env w file output_prefix hopsize fmin fmax ckpt batch_size gpu))
           = saved w"
proof -
  obtain w1 where f: "from_file env w file hopsize fmin fmax ckpt batch_size gpu = (w1, Inl e)"
    using assms by (cases "from_file env w file hopsize fmin fmax ckpt batch_size gpu") simp
  with from_file_files [of env w "file" hopsize fmin fmax ckpt batch_size gpu]
  have "saved w1 = saved w" by simp
  then show ?thesis by (simp add: from_file_to_file_def f)
qed

text \<open>
  C8.  When \<open>from_file\<close> returns, \<open>from_file_to_file\<close> raises nothing and leaves storage
  as it was but for two files, \<open>prefix-pitch.pt\<close> holding the pitch and
  \<open>prefix-periodicity.pt\<close> holding the periodicity, whatever was stored under these names
  before; the prefix is the one given or, when none is given, the directory of the input
  file joined with the stem of its name.
\<close>

theorem from_file_to_file_saves:
  assumes "snd (from_file env w file hopsize fmin fmax ckpt batch_size gpu) = Inr (pitch, periodicity)"
  shows "snd (from_file_to_file env w file output_prefix hopsize fmin fmax ckpt batch_size gpu) = None \<and>
         saved (fst (from_file_to_file env w file output_prefix hopsize fmin fmax ckpt batch_size gpu))
           = (saved w)
               (path_str (case output_prefix of
                            None \<Rightarrow> path_join (path_parent file) (path_stem file)
                          | Some p \<Rightarrow> p) @ ''-pitch.pt'' \<mapsto> pitch,
                path_str (case output_prefix of
                            None \<Rightarrow> path_join (path_parent file) (path_stem file)
                          | Some p \<Rightarrow> p) @ ''-periodicity.pt'' \<mapsto> periodicity) \<and>
         path_str (case output_prefix of
                     None \<Rightarrow> path_join (path_parent file) (path_stem file)
                   | Some p \<Rightarrow> p) @ ''-pitch.pt''
           \<noteq> path_str (case output_prefix of
                         None \<Rightarrow> path_join (path_parent file) (path_stem file)
                       | Some p \<Rightarrow> p) @ ''-periodicity.pt''"
proof -
  obtain w1 where f: "from_file env w file hopsize fmin fmax ckpt batch_size gpu
                      = (w1, Inr (pitch, periodicity))"
    using assms by (cases "from_file env w file hopsize fmin fmax ckpt batch_size gpu") simp
  with from_file_files [of env w "file" hopsize fmin fmax ckpt batch_size gpu]
  have "saved w1 = saved w" by simp
  then show ?thesis
    by (simp add: from_file_to_file_def f Let_def torch_save_def)
qed

theorem from_file_to_file_saves_witness:
  "snd (from_file tiny fresh (Path ''/'' [''data'', ''a.wav'']) 0.01 1 3 (Path ''/'' [''m.pt'']) None None)
     = Inr ([2, 1, 1, 1], [1, 1, 1, 1]) \<and>
   snd (from_file_to_file tiny fresh (Path ''/'' [''data'', ''a.wav'']) None 0.01 1 3
          (Path ''/'' [''m.pt'']) None None) = None \<and>
   saved (fst (from_file_to_file tiny fresh (Path ''/'' [''data'', ''a.wav'']) None 0.01 1 3
                 (Path ''/'' [''m.pt'']) None None))
     = [''/data/a-pitch.pt'' \<mapsto> [2, 1, 1, 1], ''/data/a-periodicity.pt'' \<mapsto> [1, 1, 1, 1]]"
proof -
  have r: "snd (from_file tiny fresh (Path ''/'' [''data'', ''a.wav'']) 0.01 1 3 (Path ''/'' [''m.pt'']) None None)
           = Inr ([2, 1, 1, 1], [1, 1, 1, 1])"
    by code_simp
  have p: "path_str (path_join (path_parent (Path ''/'' [''data'', ''a.wav'']))
                       (path_stem (Path ''/'' [''data'', ''a.wav'']))) = ''/data/a''"
    by code_simp
  have s: "saved (fresh :: (path \<times> string) world) = Map.empty"
    by (simp add: fresh_def)
  from from_file_to_file_saves [OF r, of None] r show ?thesis
    by (simp add: p s)
qed





section \<open>Batches and concatenation\<close>

lemma two_batches:
  assumes "0 < (b2::nat)" "b2 \<le> b1"
  shows "(b1 + b2 + b1 - 1) div b1 = 2"
proof -
  have e: "b1 + b2 + b1 - 1 = (b2 - 1) + 2 * b1" using assms by simp
  have "b2 - 1 < b1" using assms by simp
  then have "(b2 - 1) div b1 = 0" by simp
  moreover have "((b2 - 1) + 2 * b1) div b1 = 2 + (b2 - 1) div b1"
    using assms by (intro div_mult_self1) simp
  ultimately show ?thesis by (simp only: e)
qed

lemma one_batch:
  assumes "0 < (t::nat)"
  shows "(t + t - 1) div t = 1"
proof -
  have "t - 1 < t" using assms by simp
  then have "(t - 1) div t = 0" by simp
  moreover have "((t - 1) + 1 * t) div t = 1 + (t - 1) div t"
    using assms by (intro div_mult_self1) simp
  moreover have "t + t - 1 = (t - 1) + 1 * t" using assms by simp
  ultimately show ?thesis by simp
qed

text \<open>The batches of a run in two batches of sizes B1 and B2, and of a run in one batch.\<close>

lemma preprocess_two_batches:
  assumes hop: "seconds_to_samples env hopsize = H" "0 < H" "H \<le> WINDOW_SIZE env"
      "even (WINDOW_SIZE env - H)"
    and total: "length (resample env audio sample_rate) div H = nat B1 + nat B2"
    and sizes: "0 < B2" "B2 \<le> B1"
  shows "\<exists>F1 F2. preprocess env audio sample_rate hopsize (Some B1)
                    = ([(F1, nat B1), (F2, nat B2)], None) \<and>
                 preprocess env audio sample_rate hopsize (Some (B1 + B2))
                    = ([(F1 @ F2, nat B1 + nat B2)], None)"
proof -
  define padded where
    "padded = replicate ((WINDOW_SIZE env - H) div 2) 0 @ resample env audio sample_rate @
              replicate ((WINDOW_SIZE env - H) div 2) 0"
  define win where "win = (\<lambda>k. take (WINDOW_SIZE env) (drop (k * H) padded))"
  define b1 where "b1 = nat B1"
  define b2 where "b2 = nat B2"
  have b: "0 < b2" "b2 \<le> b1" "0 < b1" using sizes by (simp_all add: b1_def b2_def)
  have B1: "0 < B1" and B12: "0 < B1 + B2" "nat (B1 + B2) = b1 + b2"
    using sizes by (simp_all add: b1_def b2_def)
  have n2: "(b1 + b2 + b1 - Suc 0) div b1 = 2" using two_batches [OF b(1,2)] by simp
  have "0 < b1 + b2" using b by simp
  from one_batch [OF this] have n1: "(b1 + b2 + (b1 + b2) - Suc 0) div (b1 + b2) = 1" by simp
  have u2: "[0 ..< (2::nat)] = [0, 1]" by (simp add: upt_rec)
  have u1: "[0 ..< (1::nat)] = [0]" by simp
  have m: "min (b1 + b2) b1 = b1" "min b2 b1 = b2" using b by simp_all
  have gen: "preprocess env audio sample_rate hopsize (Some B)
             = (map (\<lambda>i. (map (\<lambda>k. win (i + k)) [0 ..< min (nat B1 + nat B2 - i) (nat B)],
                            min (nat B1 + nat B2 - i) (nat B)))
                    (map (\<lambda>k. k * nat B) [0 ..< (nat B1 + nat B2 + nat B - 1) div nat B]), None)"
    if "0 < B" for B
    unfolding win_def padded_def
    using preprocess_batches [OF hop(1,2) that hop(3,4), of audio sample_rate]
    by (simp only: Let_def total)
  have two: "preprocess env audio sample_rate hopsize (Some B1)
             = ([(map win [0 ..< b1], b1), (map (\<lambda>k. win (b1 + k)) [0 ..< b2], b2)], None)"
    using gen [OF B1]
    by (simp add: b1_def [symmetric] b2_def [symmetric] n2 u2 m)
  have one: "preprocess env audio sample_rate hopsize (Some (B1 + B2))
             = ([(map win [0 ..< b1 + b2], b1 + b2)], None)"
    using gen [OF B12(1)]
    by (simp add: B12(2) b1_def [symmetric] b2_def [symmetric] n1 u1)
  have "[0 ..< b1 + b2] = [0 ..< b1] @ [b1 ..< b1 + b2]"
    by (rule upt_add_eq_append) simp
  then have "map win [0 ..< b1 + b2] = map win [0 ..< b1] @ map (\<lambda>k. win (b1 + k)) [0 ..< b2]"
    by (simp add: map_shift [of win b1 b2])
  with two one show ?thesis
    unfolding b1_def b2_def by auto
qed

text \<open>Frame-wise decoders decode a batch as they decode its parts.\<close>

lemma fill_append:
  "map (fill_from M) (map (fill_below m) (xs @ ys))
   = map (fill_from M) (map (fill_below m) xs) @ map (fill_from M) (map (fill_below m) ys)"
  by simp

lemma decode_pitch_append:
  assumes "\<not> prefix ''viterbi'' (DECODER env)"
    and "framewise_decoder (decode_argmax env)" "framewise_decoder (decode_average env)"
      "framewise_decoder (decode_weighted env)"
  shows "decode_pitch env (xs @ ys) =
           (case decode_pitch env xs of
              Inl e \<Rightarrow> Inl e
            | Inr (b1, p1) \<Rightarrow>
                (case decode_pitch env ys of
                   Inl e \<Rightarrow> Inl e
                 | Inr (b2, p2) \<Rightarrow> Inr (b1 @ b2, p1 @ p2)))"
  using assms
  by (auto simp: decode_pitch_def framewise_decoder_def framewise_def prod_eq_iff
      split: prod.splits)

lemma decode_periodicity_append:
  assumes "framewise (periodicity_entropy env)" "framewise (periodicity_max env)"
      "framewise (periodicity_sum env)"
  shows "decode_periodicity env (xs @ ys) =
           (case decode_periodicity env xs of
              Inl e \<Rightarrow> Inl e
            | Inr q1 \<Rightarrow>
                (case decode_periodicity env ys of
                   Inl e \<Rightarrow> Inl e
                 | Inr q2 \<Rightarrow> Inr (q1 @ q2)))"
  using assms by (auto simp: decode_periodicity_def framewise_def)

lemma decode_pitch_raises:
  "decode_pitch env xs = Inl e \<Longrightarrow> decode_pitch env ys = Inl e"
  by (auto simp: decode_pitch_def split: if_splits)

lemma decode_periodicity_raises:
  "decode_periodicity env xs = Inl e \<Longrightarrow> decode_periodicity env ys = Inl e"
  by (auto simp: decode_periodicity_def split: if_splits)

lemma postprocess_append:
  assumes "\<not> prefix ''viterbi'' (DECODER env)"
    and "framewise_decoder (decode_argmax env)" "framewise_decoder (decode_average env)"
      "framewise_decoder (decode_weighted env)"
    and "framewise (periodicity_entropy env)" "framewise (periodicity_max env)"
      "framewise (periodicity_sum env)"
  shows "snd (postprocess env (xs @ ys) fmin fmax) =
           (case snd (postprocess env xs fmin fmax) of
              Inl e \<Rightarrow> Inl e
            | Inr (b1, p1, q1) \<Rightarrow>
                (case snd (postprocess env ys fmin fmax) of
                   Inl e \<Rightarrow> Inl e
                 | Inr (b2, p2, q2) \<Rightarrow> Inr (b1 @ b2, p1 @ p2, q1 @ q2)))"
proof -
  define mask where
    "mask = (\<lambda>l. map (fill_from (frequency_to_bins env fmax Ceil))
                  (map (fill_below (frequency_to_bins env fmin Floor)) l))"
  have p: "snd (postprocess env l fmin fmax) =
             (case decode_pitch env (mask l) of
                Inl e \<Rightarrow> Inl e
              | Inr (bins, pitch) \<Rightarrow>
                  (case decode_periodicity env (mask l) of
                     Inl e \<Rightarrow> Inl e
                   | Inr periodicity \<Rightarrow> Inr (bins, pitch, periodicity)))" for l
    unfolding mask_def by (simp add: postprocess_def Let_def del: map_map)
  have a: "mask (xs @ ys) = mask xs @ mask ys" by (simp add: mask_def)
  note dp = decode_pitch_append [OF assms(1-4), of "mask xs" "mask ys"]
  note dq = decode_periodicity_append [OF assms(5-7), of "mask xs" "mask ys"]
  show ?thesis
  proof (cases "decode_pitch env (mask xs)")
    case (Inl e)
    then show ?thesis by (simp add: p a dp)
  next
    case pitch1: (Inr r1)
    obtain b1 p1 where r1: "r1 = (b1, p1)" by (cases r1)
    show ?thesis
    proof (cases "decode_pitch env (mask ys)")
      case (Inl e)
      from decode_pitch_raises [OF this, of "mask xs"] pitch1 show ?thesis by simp
    next
      case pitch2: (Inr r2)
      obtain b2 p2 where r2: "r2 = (b2, p2)" by (cases r2)
      show ?thesis
      proof (cases "decode_periodicity env (mask xs)")
        case (Inl e)
        then show ?thesis by (simp add: p a dp dq pitch1 pitch2 r1 r2)
      next
        case per1: (Inr q1)
        show ?thesis
        proof (cases "decode_periodicity env (mask ys)")
          case (Inl e)
          from decode_periodicity_raises [OF this, of "mask xs"] per1 show ?thesis by simp
        next
          case (Inr q2)
          then show ?thesis by (simp add: p a dp dq pitch1 pitch2 per1 r1 r2)
        qed
      qed
    qed
  qed
qed

lemma infer_twice:
  "\<exists>w1 m. (\<forall>frames. infer env w dev frames ckpt = (w1, forward env m frames)) \<and>
          (\<forall>frames. infer env w1 dev frames ckpt = (w1, forward env m frames))"
proof -
  let ?w1 = "load_and_cache env w dev ckpt"
  from attrs_load_and_cache [of env w dev ckpt] obtain a where
    a: "attrs ?w1 = Some a" "checkpoint a = ckpt" "device_type a = dev_type dev"
    by auto
  have first: "infer env w dev frames ckpt = (?w1, forward env (model a) frames)" for frames
    by (simp add: infer_def Let_def a)
  have "\<not> needs_load ?w1 dev ckpt" by (simp add: needs_load_def a)
  then have "load_and_cache env ?w1 dev ckpt = ?w1" by (simp add: load_and_cache_def)
  then have "infer env ?w1 dev frames ckpt = (?w1, forward env (model a) frames)" for frames
    by (simp add: infer_def Let_def a)
  with first show ?thesis by blast
qed

text \<open>
  C6, as amended.  With a hop that is not longer than the window and an even difference
  between the two, a network that works frame by frame, the decoders argmax, average and
  weighted and the three periodicity measures working frame by frame, and the decoder name
  outside the viterbi family, \<open>from_audio\<close> with a batch size B1 that splits the frames
  into two batches of sizes B1 and B2 returns what it returns with the frames in one batch
  of size B1 + B2, and leaves the same state.
\<close>

theorem from_audio_two_batches:
  assumes hop: "seconds_to_samples env hopsize = H" "0 < H" "H \<le> WINDOW_SIZE env"
      "even (WINDOW_SIZE env - H)"
    and total: "length (resample env audio sample_rate) div H = nat B1 + nat B2"
    and sizes: "0 < B2" "B2 \<le> B1"
    and net: "framewise_forward env"
    and dec: "\<not> prefix ''viterbi'' (DECODER env)"
      "framewise_decoder (decode_argmax env)" "framewise_decoder (decode_average env)"
      "framewise_decoder (decode_weighted env)"
    and per: "framewise (periodicity_entropy env)" "framewise (periodicity_max env)"
      "framewise (periodicity_sum env)"
  shows "from_audio env w audio sample_rate hopsize fmin fmax ckpt (Some B1) gpu
         = from_audio env w audio sample_rate hopsize fmin fmax ckpt (Some (B1 + B2)) gpu"
proof -
  from preprocess_two_batches [OF hop total sizes] obtain F1 F2 where
    two: "preprocess env audio sample_rate hopsize (Some B1) = ([(F1, nat B1), (F2, nat B2)], None)" and
    one: "preprocess env audio sample_rate hopsize (Some (B1 + B2)) = ([(F1 @ F2, nat B1 + nat B2)], None)"
    by auto
  from infer_twice [of env w "device_of gpu" ckpt] obtain w1 m where
    i1: "\<And>frames. infer env w (device_of gpu) frames ckpt = (w1, forward env m frames)" and
    i2: "\<And>frames. infer env w1 (device_of gpu) frames ckpt = (w1, forward env m frames)"
    by auto
  define L1 where "L1 = forward env m F1"
  define L2 where "L2 = forward env m F2"
  have L: "forward env m (F1 @ F2) = L1 @ L2"
    using net by (simp add: framewise_forward_def L1_def L2_def)
  note pa = postprocess_append [OF dec per, of L1 L2 fmin fmax]
  have loop2: "from_audio_loop env w (device_of gpu) ckpt fmin fmax [(F1, nat B1), (F2, nat B2)]
               = (w1, case snd (postprocess env L1 fmin fmax) of
                        Inl e \<Rightarrow> Inl e
                      | Inr (b1, p1, q1) \<Rightarrow>
                          (case snd (postprocess env L2 fmin fmax) of
                             Inl e \<Rightarrow> Inl e
                           | Inr (b2, p2, q2) \<Rightarrow> Inr ([p1, p2], [q1, q2])))"
    by (simp add: i1 i2 L1_def [symmetric] L2_def [symmetric] split: sum.splits prod.splits)
  have loop1: "from_audio_loop env w (device_of gpu) ckpt fmin fmax [(F1 @ F2, nat B1 + nat B2)]
               = (w1, case snd (postprocess env (L1 @ L2) fmin fmax) of
                        Inl e \<Rightarrow> Inl e
                      | Inr (b, p, q) \<Rightarrow> Inr ([p], [q]))"
    by (simp add: i1 L split: sum.splits prod.splits)
  show ?thesis
    unfolding from_audio_def two one prod.case loop2 loop1 pa
    by (simp add: torch_cat_def split: sum.splits prod.splits)
qed

lemma framewise_spec_argmax: "framewise_decoder (spec_argmax f)"
  by (simp add: framewise_decoder_def framewise_def spec_argmax_def Let_def)

theorem from_audio_two_batches_witness:
  "from_audio tiny fresh [1, 5, 2, 0, 3, 1, 4, 2] 8 0.01 1 3 (Path ''/'' [''m.pt'']) (Some 3) None
   = from_audio tiny fresh [1, 5, 2, 0, 3, 1, 4, 2] 8 0.01 1 3 (Path ''/'' [''m.pt'']) (Some (3 + 1)) None \<and>
   snd (from_audio tiny fresh [1, 5, 2, 0, 3, 1, 4, 2] 8 0.01 1 3 (Path ''/'' [''m.pt'']) (Some 3) None)
   = Inr ([2, 1, 1, 1], [1, 1, 1, 1])"
proof -
  have hop: "seconds_to_samples tiny 0.01 = 2" "(0::nat) < 2" "2 \<le> WINDOW_SIZE tiny"
    "even (WINDOW_SIZE tiny - 2)"
    by (simp_all add: tiny_def)
  have total: "length (resample tiny [1, 5, 2, 0, 3, 1, 4, 2] 8) div 2 = nat 3 + nat 1"
    by (simp add: resample_def tiny_def)
  have sizes: "(0::int) < 1" "(1::int) \<le> 3" by simp_all
  have net: "framewise_forward tiny" by (simp add: framewise_forward_def tiny_def)
  have dec: "\<not> prefix ''viterbi'' (DECODER tiny)"
    "framewise_decoder (decode_argmax tiny)" "framewise_decoder (decode_average tiny)"
    "framewise_decoder (decode_weighted tiny)"
    by (simp_all add: tiny_def framewise_spec_argmax)
  have per: "framewise (periodicity_entropy tiny)" "framewise (periodicity_max tiny)"
    "framewise (periodicity_sum tiny)"
    by (simp_all add: tiny_def framewise_def)
  have v: "snd (from_audio tiny fresh [1, 5, 2, 0, 3, 1, 4, 2] 8 0.01 1 3 (Path ''/'' [''m.pt'']) (Some 3) None)
   = Inr ([2, 1, 1, 1], [1, 1, 1, 1])"
    by code_simp
  from from_audio_two_batches [OF hop total sizes net dec per] v show ?thesis
    by simp
qed

text \<open>
  C6 as stated fails for the viterbi decoder, which decodes every batch on its own: on
  two frames, decoded one by one the bins are 2 and 1, decoded together they are 2 and 2.
  It also fails when the difference between window and hop is odd: with a window of 4, a
  hop of 1 and three samples, the second of the batches of sizes 2 and 1 does not fit the
  padded buffer and the run raises, where the run in one batch returns two frames.
\<close>

theorem from_audio_batches_counterexample:
  "snd (from_audio (tiny\<lparr>DECODER := ''viterbi''\<rparr>) fresh [1, 5, 2, 0] 8 0.01 1 3
          (Path ''/'' [''m.pt'']) (Some 1) None) = Inr ([2, 1], [1, 1]) \<and>
   snd (from_audio (tiny\<lparr>DECODER := ''viterbi''\<rparr>) fresh [1, 5, 2, 0] 8 0.01 1 3
          (Path ''/'' [''m.pt'']) (Some (1 + 1)) None) = Inr ([2, 2], [1, 1]) \<and>
   snd (from_audio (tiny\<lparr>seconds_to_samples := \<lambda>s. 1\<rparr>) fresh [5, 7, 9] 8 0.01 0 4
          (Path ''/'' [''m.pt'']) (Some 2) None)
     = Inl (RuntimeError ''sliding blocks must be positive'') \<and>
   snd (from_audio (tiny\<lparr>seconds_to_samples := \<lambda>s. 1\<rparr>) fresh [5, 7, 9] 8 0.01 0 4
          (Path ''/'' [''m.pt'']) (Some (2 + 1)) None) = Inr ([3, 2], [1, 1])"
  by code_simp

end
